theory Spec2Isabelle
  imports Main
begin

text \<open>
  A model of the bulk export of an Airtable Enterprise account into a local SQLite
  file: the scan of the bases with its retries, scan identifier and skip list
  (base_data.js: \<open>requestWithRetry\<close>, \<open>deleteData\<close>, \<open>run\<close>), and the write of a
  base by the crawl (metadata.js). The remote account is a parameter: for every call
  of the scripts, what the promise of that call settles to.
\<close>

section \<open>The local SQLite store\<close>

text \<open>
  The store is the SQLite file created by \<open>createTables\<close> (metadata.js): the tables
  \<open>workspaces\<close>, \<open>bases\<close> and \<open>data\<close>. A value is a text or \<open>None\<close>,
  SQL's NULL (JavaScript's null and undefined bind to it); a row maps a column name to
  its value. A table is the list of its rows in insertion (rowid) order.
  \<open>foreign_keys\<close> is the connection's foreign-key enforcement switch: the schema
  declares \<open>data.base_id REFERENCES bases(id) ON DELETE CASCADE\<close>, and SQLite applies
  that action only while enforcement is on for the connection, which it is not until
  the connection issues \<open>PRAGMA foreign_keys = ON\<close>. No statement of the scripts
  does. The switch is kept as a parameter of the store, so that what holds under
  either setting can be stated.

  Statements are taken to complete: a failure of the engine itself (I/O, limits) is
  outside the model, and the tables are taken to exist, as base_data.js assumes. The
  check that an enforced foreign key makes on an insert into \<open>data\<close> is not
  modelled either: the scan writes records under the identifier of a row it has just
  read from \<open>bases\<close>.
\<close>

type_synonym val = "string option"

type_synonym row = "string \<Rightarrow> val"

record database =
  tables :: "string \<Rightarrow> row list"
  foreign_keys :: bool

text \<open>The key column of each table, as \<open>createTables\<close> declares it:
  \<open>id TEXT PRIMARY KEY\<close> for workspaces and bases, \<open>record_id TEXT PRIMARY KEY\<close>
  for data.\<close>

definition primary_key :: "string \<Rightarrow> string" where
  "primary_key table_name = (if table_name = ''data'' then ''record_id'' else ''id'')"

subsection \<open>Three-valued SQL conditions\<close>

definition sql_ne :: "val \<Rightarrow> val \<Rightarrow> bool option" where
  "sql_ne a b = (case a of None \<Rightarrow> None
                 | Some x \<Rightarrow> (case b of None \<Rightarrow> None | Some y \<Rightarrow> Some (x \<noteq> y)))"

definition sql_is_null :: "val \<Rightarrow> bool option" where
  "sql_is_null a = Some (a = None)"

definition sql_or :: "bool option \<Rightarrow> bool option \<Rightarrow> bool option" where
  "sql_or p q = (if p = Some True \<or> q = Some True then Some True
                 else if p = Some False \<and> q = Some False then Some False
                 else None)"

definition sql_in :: "val \<Rightarrow> val list \<Rightarrow> bool option" where
  "sql_in a bs = (if bs = [] then Some False
                  else case a of None \<Rightarrow> None
                       | Some x \<Rightarrow> if Some x \<in> set bs then Some True
                                   else if None \<in> set bs then None
                                   else Some False)"

text \<open>\<open>WHERE scan_id != ? OR scan_id IS NULL\<close>, with the parameter bound to
  \<open>scan_id\<close>. A row is selected when the condition is true (not false, not NULL).\<close>

definition not_scanned :: "string \<Rightarrow> row \<Rightarrow> bool" where
  "not_scanned scan_id r =
     (sql_or (sql_ne (r ''scan_id'') (Some scan_id)) (sql_is_null (r ''scan_id''))
        = Some True)"

definition select_not_scanned :: "string \<Rightarrow> row list \<Rightarrow> row list" where
  "select_not_scanned scan_id rows = filter (not_scanned scan_id) rows"

subsection \<open>Statements\<close>

text \<open>Rows of \<open>data\<close> that reference a deleted row of \<open>bases\<close> go with it when the
  foreign key is enforced.\<close>

definition cascade :: "row list \<Rightarrow> database \<Rightarrow> database" where
  "cascade deleted d =
     (if foreign_keys d
      then d\<lparr>tables := (tables d)(''data'' :=
             filter (\<lambda>r. sql_in (r ''base_id'') (map (\<lambda>b. b ''id'') deleted) \<noteq> Some True)
               (tables d ''data''))\<rparr>
      else d)"

text \<open>\<open>DELETE FROM table_name WHERE primary_field IN (?, ..., ?)\<close>.\<close>

definition sql_delete_in :: "database \<Rightarrow> string \<Rightarrow> string \<Rightarrow> val list \<Rightarrow> database" where
  "sql_delete_in d table_name primary_field ids =
     (let hit = (\<lambda>r. sql_in (r primary_field) ids = Some True);
          deleted = filter hit (tables d table_name);
          d1 = d\<lparr>tables := (tables d)(table_name := filter (\<lambda>r. \<not> hit r) (tables d table_name))\<rparr>
      in if table_name = ''bases'' then cascade deleted d1 else d1)"

text \<open>\<open>INSERT OR REPLACE INTO table_name (...) VALUES (...)\<close>: the row that holds the
  same key is deleted, the new row is appended; columns the statement does not name
  are NULL.\<close>

definition insert_or_replace :: "database \<Rightarrow> string \<Rightarrow> row \<Rightarrow> database" where
  "insert_or_replace d table_name new =
     (let pk = primary_key table_name;
          clash = (\<lambda>r. r pk \<noteq> None \<and> r pk = new pk);
          deleted = filter clash (tables d table_name);
          d1 = d\<lparr>tables := (tables d)(table_name :=
                 filter (\<lambda>r. \<not> clash r) (tables d table_name) @ [new])\<rparr>
      in if table_name = ''bases'' then cascade deleted d1 else d1)"

text \<open>\<open>UPDATE bases SET scan_time=?, scan_id=? WHERE id=?\<close>.\<close>

definition update_scan :: "database \<Rightarrow> string \<Rightarrow> string \<Rightarrow> val \<Rightarrow> database" where
  "update_scan d scan_time scan_id base_id =
     d\<lparr>tables := (tables d)(''bases'' :=
        map (\<lambda>r. if r ''id'' \<noteq> None \<and> r ''id'' = base_id
                 then r(''scan_time'' \<mapsto> scan_time, ''scan_id'' \<mapsto> scan_id)
                 else r)
          (tables d ''bases''))\<rparr>"

section \<open>Promises, failures and the log of remote activity\<close>

text \<open>
  A failure as the handlers of base_data.js read it: \<open>err.code\<close>, and
  \<open>err.response\<close> with \<open>status\<close> and \<open>data.error\<close> (\<open>data_error\<close>, \<open>None\<close> when
  the body has no such property; a response always carries a body). A failure that
  never reached the server (a timeout) has no response. A promise is modelled by what
  it settles to; awaiting it again yields the same outcome, and a promise that never
  settles is outside the model.
\<close>

record response =
  status :: int
  data_error :: "string option"

record js_error =
  code :: "string option"
  response :: "response option"

datatype thrown = Rejection js_error | TypeError

datatype 'a promise = Resolved 'a | Rejected js_error

text \<open>The remote calls of base_data.js, each with the base it addresses (and the
  table name, for the record listing). An \<open>Issued\<close> event is the call being sent;
  \<open>Awaited\<close> is one \<open>await request\<close> of requestWithRetry, tagged with its
  \<open>request_id\<close>; \<open>Slept\<close> is one \<open>setTimeout\<close> with its delay in milliseconds.\<close>

datatype remote_call =
    Post_collaborators val
  | Get_tables val
  | Select_all val string
  | Delete_collaborator val

datatype event = Issued remote_call | Awaited val | Slept int

subsection \<open>requestWithRetry\<close>

text \<open>
  requestWithRetry (lines 30-58). Its first argument is a promise, not an operation:
  every call site (lines 141, 166, 188 and 238) makes the remote call and passes the
  promise that the call returned. The function awaits that promise (line 33); on
  \<open>ETIMEDOUT\<close> with fewer than 5 retries counted it sleeps 10000 ms and calls itself
  with the same promise (line 42), which is awaited again and yields the outcome it
  already had. The function sends nothing itself: its log holds \<open>Awaited\<close> and
  \<open>Slept\<close> events only, and the \<open>Issued\<close> event of a call is logged by the caller.
\<close>

function requestWithRetry :: "'a promise \<Rightarrow> val \<Rightarrow> nat option \<Rightarrow> event list \<times> (thrown + 'a)" where
  "requestWithRetry request request_id retry_count =
     (let n = (case retry_count of None \<Rightarrow> 0 | Some k \<Rightarrow> k) in
      case request of
        Resolved r \<Rightarrow> ([Awaited request_id], Inr r)
      | Rejected err \<Rightarrow>
          if code err = Some ''ETIMEDOUT'' \<and> n < 5
          then (let (tr, res) = requestWithRetry request request_id (Some (n + 1))
                in (Awaited request_id # Slept 10000 # tr, res))
          else ([Awaited request_id], Inl (Rejection err)))"
  by pat_completeness auto
termination
  by (relation "measure (\<lambda>(request, request_id, retry_count).
        5 - (case retry_count of None \<Rightarrow> 0 | Some k \<Rightarrow> k))") auto

section \<open>base_data.js\<close>

text \<open>
  The remote side, as the scan sees it: what each call settles to, and the clock read
  by \<open>new Date()\<close> before the administrator is removed from a base.
\<close>

record airtable_table =
  t_id :: string
  t_name :: string

record airtable_record =
  rec_id :: string
  rec_fields :: string
  rec_createdTime :: string

record remote =
  post_collaborators :: "val \<Rightarrow> unit promise"
  get_tables :: "val \<Rightarrow> airtable_table list promise"
  select_all :: "val \<Rightarrow> string \<Rightarrow> airtable_record list promise"
  delete_collaborator :: "val \<Rightarrow> unit promise"
  now_iso :: "val \<Rightarrow> string"

text \<open>The state the script works on: the store, the module's global
  \<open>UNSCANNED_BASES\<close>, and the log of remote activity.\<close>

record state =
  db :: database
  UNSCANNED_BASES :: "val list"
  trace :: "event list"

datatype js_value = JS_undefined | JS_boolean bool | JS_string string

definition logged :: "state \<Rightarrow> event list \<Rightarrow> state" where
  "logged st evs = st\<lparr>trace := trace st @ evs\<rparr>"

text \<open>
  \<open>Promise.map(xs, mapper, {concurrency: n})\<close>. Bluebird starts up to \<open>n\<close> mappers
  at once (5 tables of a base, 2 bases), takes the waiting elements from the end of
  the list, rejects as soon as one mapper rejects, and lets the mappers already in
  flight run on after that, so that they still read and write. This interleaving is
  not modelled: here the mapper runs to completion on one element after another, in
  list order, and the first rejection rejects the whole map, the elements after it
  never being started. What is proved of \<open>promise_map\<close> is proved of that one
  schedule. The properties of the record rows that have to hold in whatever order the
  concurrent mappers reach the store are stated over sequences of store statements
  (\<open>execute\<close>, below).
\<close>

fun promise_map :: "('a \<Rightarrow> 's \<Rightarrow> (thrown + 'b) \<times> 's) \<Rightarrow> 'a list \<Rightarrow> 's \<Rightarrow> (thrown + 'b list) \<times> 's" where
  "promise_map f [] s = (Inr [], s)"
| "promise_map f (x # xs) s =
     (case f x s of
        (Inl e, s1) \<Rightarrow> (Inl e, s1)
      | (Inr y, s1) \<Rightarrow>
          (case promise_map f xs s1 of
             (Inl e, s2) \<Rightarrow> (Inl e, s2)
           | (Inr ys, s2) \<Rightarrow> (Inr (y # ys), s2)))"

text \<open>The \<open>INSERT OR REPLACE INTO data\<close> of one record. The statement lists the
  columns as \<open>(base_id, table_id, record_id, created_time, data, scan_id)\<close> and the
  values as \<open>($base_id, $table_id, $record_id, $data, $created_time, $scan_id)\<close>.\<close>

definition write_record :: "string \<Rightarrow> val \<Rightarrow> airtable_table \<Rightarrow> database \<Rightarrow> airtable_record \<Rightarrow> database" where
  "write_record scan_id base_id t d rec =
     (let p_base_id = base_id;
          p_table_id = Some (t_id t);
          p_record_id = Some (rec_id rec);
          p_data = Some (rec_fields rec);
          p_created_time = Some (rec_createdTime rec);
          p_scan_id = Some scan_id
      in insert_or_replace d ''data''
           ((\<lambda>c. None)(''base_id'' := p_base_id, ''table_id'' := p_table_id,
              ''record_id'' := p_record_id, ''created_time'' := p_data,
              ''data'' := p_created_time, ''scan_id'' := p_scan_id)))"

text \<open>The mapper over the tables of a base (lines 184-212).\<close>

definition scanTable :: "remote \<Rightarrow> string \<Rightarrow> val \<Rightarrow> airtable_table \<Rightarrow> state \<Rightarrow> (thrown + nat) \<times> state" where
  "scanTable env scan_id base_id t st =
     (let (tr, r) = requestWithRetry (select_all env base_id (t_name t)) (Some (t_id t)) None;
          st1 = logged st (Issued (Select_all base_id (t_name t)) # tr)
      in case r of
           Inl err \<Rightarrow> (Inl err, st1)
         | Inr records \<Rightarrow>
             (Inr (length records),
              st1\<lparr>db := foldl (write_record scan_id base_id t) (db st1) records\<rparr>))"

text \<open>\<open>record_numbers.reduce((aggregate, current) => aggregate + current)\<close>: without
  an initial value, reduce throws a TypeError on an empty array.\<close>

definition reduce_sum :: "nat list \<Rightarrow> thrown + nat" where
  "reduce_sum record_numbers =
     (case record_numbers of [] \<Rightarrow> Inl TypeError | n # ns \<Rightarrow> Inr (foldl (+) n ns))"

text \<open>\<open>err.response\<close>, about to be dereferenced: reading a property of undefined
  throws a TypeError.\<close>

fun response_of :: "thrown \<Rightarrow> thrown + response" where
  "response_of (Rejection err) = (case response err of None \<Rightarrow> Inl TypeError | Some r \<Rightarrow> Inr r)"
| "response_of TypeError = Inl TypeError"

text \<open>The three catch blocks around the administrative calls (lines 149-160,
  167-173 and 239-245). The result \<open>Inr (Some v)\<close> is the mapper returning \<open>v\<close>,
  \<open>Inr None\<close> is the block falling through.\<close>

definition catch_post_collaborators :: "thrown \<Rightarrow> val \<Rightarrow> state \<Rightarrow> (thrown + nat option) \<times> state" where
  "catch_post_collaborators err base_id st =
     (case response_of err of
        Inl t \<Rightarrow> (Inl t, st)
      | Inr r \<Rightarrow>
          if status r = 404 \<or> data_error r = Some ''NOT_FOUND'' then (Inr (Some 0), st)
          else if status r = 403
          then (Inr (Some 0), st\<lparr>UNSCANNED_BASES := UNSCANNED_BASES st @ [base_id]\<rparr>)
          else (Inl err, st))"

definition catch_get_tables :: "thrown \<Rightarrow> state \<Rightarrow> (thrown + nat option) \<times> state" where
  "catch_get_tables err st =
     (case response_of err of
        Inl t \<Rightarrow> (Inl t, st)
      | Inr r \<Rightarrow> if status r = 403 then (Inr (Some 0), st) else (Inl err, st))"

definition catch_delete_collaborator :: "thrown \<Rightarrow> state \<Rightarrow> (thrown + nat option) \<times> state" where
  "catch_delete_collaborator err st =
     (case response_of err of
        Inl t \<Rightarrow> (Inl t, st)
      | Inr r \<Rightarrow> if status r = 403 then (Inr None, st) else (Inl err, st))"

text \<open>The mapper over the selected bases (lines 137-249). It returns 0, or nothing
  (\<open>None\<close>), or throws.\<close>

definition scanBase :: "remote \<Rightarrow> string \<Rightarrow> row \<Rightarrow> state \<Rightarrow> (thrown + nat option) \<times> state" where
  "scanBase env scan_id b st =
     (let base_id = b ''id'';
          (tr1, r1) = requestWithRetry (post_collaborators env base_id) base_id None;
          st1 = logged st (Issued (Post_collaborators base_id) # tr1)
      in case r1 of
           Inl err \<Rightarrow> catch_post_collaborators err base_id st1
         | Inr r \<Rightarrow>
            (let (tr2, r2) = requestWithRetry (get_tables env base_id) base_id None;
                 st2 = logged st1 (Issued (Get_tables base_id) # tr2)
             in case r2 of
                  Inl err \<Rightarrow> catch_get_tables err st2
                | Inr tbls \<Rightarrow>
                   (case promise_map (scanTable env scan_id base_id) tbls st2 of
                      (Inl err, st3) \<Rightarrow>
                        (Inr None, st3\<lparr>UNSCANNED_BASES := UNSCANNED_BASES st3 @ [base_id]\<rparr>)
                    | (Inr record_numbers, st3) \<Rightarrow>
                       (case reduce_sum record_numbers of
                          Inl err \<Rightarrow> (Inl err, st3)
                        | Inr num_records \<Rightarrow>
                           (let now = now_iso env base_id;
                                (tr4, r4) = requestWithRetry (delete_collaborator env base_id) base_id None;
                                st4 = logged st3 (Issued (Delete_collaborator base_id) # tr4);
                                marked = st4\<lparr>db := update_scan (db st4) now scan_id base_id\<rparr>
                            in case r4 of
                                 Inr r \<Rightarrow> (Inr None, marked)
                               | Inl err \<Rightarrow>
                                  (case catch_delete_collaborator err st4 of
                                     (Inl t, st5) \<Rightarrow> (Inl t, st5)
                                   | (Inr v, st5) \<Rightarrow>
                                       (Inr None, st5\<lparr>db := update_scan (db st5) now scan_id base_id\<rparr>)))))))"

text \<open>deleteData (lines 78-104): read the key of every row the scan did not tag,
  then delete the rows that hold one of these keys. The DELETE binds one parameter
  for each key, and SQLite refuses a statement with more parameters than its limit
  (\<open>too many SQL variables\<close>), which rejects the promise awaited at lines 100-103.
  Like every failure of the engine, that one is outside the model: \<open>deleteData\<close>
  always completes here.\<close>

definition deleteData :: "database \<Rightarrow> string \<Rightarrow> string \<Rightarrow> string \<Rightarrow> database" where
  "deleteData d scan_id table_name primary_field =
     (let to_delete = select_not_scanned scan_id (tables d table_name);
          to_delete = map (\<lambda>b. b primary_field) to_delete
      in sql_delete_in d table_name primary_field to_delete)"

text \<open>run (lines 113-267).\<close>

definition run :: "remote \<Rightarrow> string \<Rightarrow> js_value \<Rightarrow> state \<Rightarrow> (thrown + unit) \<times> state" where
  "run env scan_id delete_data st =
     (let bases = select_not_scanned scan_id (tables (db st) ''bases'')
      in case promise_map (scanBase env scan_id) bases st of
           (Inl err, st1) \<Rightarrow> (Inl err, st1)
         | (Inr rs, st1) \<Rightarrow>
             if delete_data \<noteq> JS_boolean True then (Inr (), st1)
             else (let d1 = deleteData (db st1) scan_id ''bases'' ''id'';
                       d2 = deleteData d1 scan_id ''data'' ''record_id''
                   in (Inr (), st1\<lparr>db := d2\<rparr>)))"

section \<open>metadata.js\<close>

text \<open>The write of one base by the crawl (lines 94-102): the statement names the
  columns \<open>id\<close>, \<open>workspace_id\<close>, \<open>created_time\<close> and \<open>name\<close> only.\<close>

record queue_item =
  q_workspace_id :: val
  q_base_id :: val

record base_detail =
  detail_name :: val
  detail_created_time :: val

definition write_base :: "database \<Rightarrow> queue_item \<Rightarrow> base_detail \<Rightarrow> database" where
  "write_base d q r =
     (let p_id = q_base_id q;
          p_workspace_id = q_workspace_id q;
          p_name = detail_name r;
          p_created_time = detail_created_time r
      in insert_or_replace d ''bases''
           ((\<lambda>c. None)(''id'' := p_id, ''workspace_id'' := p_workspace_id,
              ''created_time'' := p_created_time, ''name'' := p_name)))"

section \<open>Notions used to state the properties\<close>

text \<open>What a promise hands to the code that awaits it.\<close>

definition settled :: "'a promise \<Rightarrow> thrown + 'a" where
  "settled p = (case p of Resolved r \<Rightarrow> Inr r | Rejected err \<Rightarrow> Inl (Rejection err))"

text \<open>The promise was fulfilled.\<close>

fun resolved :: "'a promise \<Rightarrow> bool" where
  "resolved (Resolved r) = True"
| "resolved (Rejected err) = False"

text \<open>The base a remote call addresses.\<close>

fun call_base :: "remote_call \<Rightarrow> val" where
  "call_base (Post_collaborators i) = i"
| "call_base (Get_tables i) = i"
| "call_base (Select_all i n) = i"
| "call_base (Delete_collaborator i) = i"

text \<open>The remote calls sent, in order, among the events of a log.\<close>

fun issued :: "event list \<Rightarrow> remote_call list" where
  "issued [] = []"
| "issued (Issued c # es) = c # issued es"
| "issued (Awaited i # es) = issued es"
| "issued (Slept ms # es) = issued es"

text \<open>The state in which the tables of a base start to be read: the grant and the
  table list have been sent and awaited once.\<close>

definition granted :: "state \<Rightarrow> val \<Rightarrow> state" where
  "granted st i =
     logged (logged st [Issued (Post_collaborators i), Awaited i])
       [Issued (Get_tables i), Awaited i]"

text \<open>The store holds a row of \<open>data\<close> for this record of this base, tagged with
  this scan.\<close>

definition holds_record :: "database \<Rightarrow> val \<Rightarrow> string \<Rightarrow> string \<Rightarrow> bool" where
  "holds_record d base_id rid scan_id =
     (\<exists>r\<in>set (tables d ''data'').
        r ''record_id'' = Some rid \<and> r ''scan_id'' = Some scan_id \<and> r ''base_id'' = base_id)"

text \<open>Every row of \<open>old\<close> is among \<open>new\<close>, or \<open>new\<close> holds a row with the same record
  identifier that the scan \<open>S\<close> wrote.\<close>

definition kept_or_rewritten :: "string \<Rightarrow> row list \<Rightarrow> row list \<Rightarrow> bool" where
  "kept_or_rewritten S old new =
     (\<forall>r\<in>set old. r \<in> set new \<or>
        (\<exists>r'\<in>set new. r' ''record_id'' = r ''record_id'' \<and> r' ''scan_id'' = Some S))"

text \<open>The column \<open>pf\<close> is a key of the rows: no NULL, no value twice (what
  \<open>PRIMARY KEY\<close> keeps for the identifiers the scripts insert).\<close>

definition keyed :: "string \<Rightarrow> row list \<Rightarrow> bool" where
  "keyed pf rows = (distinct (map (\<lambda>r. r pf) rows) \<and> None \<notin> set (map (\<lambda>r. r pf) rows))"

text \<open>A catch block that absorbs the listed HTTP statuses throws on this failure: there
  is no response to read a status from, or the status is not among those absorbed.\<close>

definition passed_on :: "int list \<Rightarrow> js_error \<Rightarrow> bool" where
  "passed_on absorbed err =
     (case response err of None \<Rightarrow> True | Some r \<Rightarrow> status r \<notin> set absorbed)"

text \<open>The failures that leave the mapper over bases, for the base \<open>i\<close>: a grant
  failure that is neither 404, NOT_FOUND nor 403; a failure of the table list other
  than 403; with every table read, an empty table list (the \<open>reduce\<close> throws) or a
  failure to remove the administrator other than 403. A failure while reading a table
  is not among them.\<close>

definition scan_escapes :: "remote \<Rightarrow> val \<Rightarrow> bool" where
  "scan_escapes env i =
     (case post_collaborators env i of
        Rejected err \<Rightarrow>
          (case response err of
             None \<Rightarrow> True
           | Some r \<Rightarrow> status r \<noteq> 404 \<and> data_error r \<noteq> Some ''NOT_FOUND'' \<and> status r \<noteq> 403)
      | Resolved u \<Rightarrow>
          (case get_tables env i of
             Rejected err \<Rightarrow> passed_on [403] err
           | Resolved ts \<Rightarrow>
               list_all (\<lambda>t. resolved (select_all env i (t_name t))) ts \<and>
               (ts = [] \<or>
                (case delete_collaborator env i of
                   Resolved u \<Rightarrow> False
                 | Rejected err \<Rightarrow> passed_on [403] err))))"

text \<open>
  The statements that the scan sends to the store are the
  \<open>INSERT OR REPLACE INTO data\<close> of a record (line 205) and the
  \<open>UPDATE bases\<close> that tags a base (line 248), and no other. The store runs one
  statement at a time, so whatever the order in which the concurrent mappers of the
  tables and of the bases get to send theirs, the store goes through a sequence of
  these statements, each with the scan identifier of the run.
\<close>

datatype scan_statement =
    Insert_record val airtable_table airtable_record
  | Update_base string val

fun execute :: "string \<Rightarrow> database \<Rightarrow> scan_statement \<Rightarrow> database" where
  "execute scan_id d (Insert_record base_id t rec) = write_record scan_id base_id t d rec"
| "execute scan_id d (Update_base now base_id) = update_scan d now scan_id base_id"



section \<open>A sample account and some stores\<close>

text \<open>
  Concrete inputs at which the theorems below are instantiated. The account has a base
  that no longer exists (\<open>appGone\<close>), one the administrator may not join
  (\<open>appLocked\<close>), one whose grant fails with a server error (\<open>appDown\<close>), and
  one whose second table times out (\<open>appHalf\<close>); every other base has the tables
  Orders and Clients with one record each.
\<close>

definition http_failure :: "int \<Rightarrow> string option \<Rightarrow> js_error" where
  "http_failure n e = \<lparr>code = None, response = Some \<lparr>status = n, data_error = e\<rparr>\<rparr>"

definition timeout_failure :: js_error where
  "timeout_failure = \<lparr>code = Some ''ETIMEDOUT'', response = None\<rparr>"

definition example_remote :: remote where
  "example_remote =
     \<lparr>post_collaborators = (\<lambda>i.
          if i = Some ''appGone'' then Rejected (http_failure 404 (Some ''NOT_FOUND''))
          else if i = Some ''appLocked'' then Rejected (http_failure 403 None)
          else if i = Some ''appDown'' then Rejected (http_failure 500 None)
          else Resolved ()),
      get_tables = (\<lambda>i.
          Resolved [\<lparr>t_id = ''tblOrders'', t_name = ''Orders''\<rparr>,
                    \<lparr>t_id = ''tblClients'', t_name = ''Clients''\<rparr>]),
      select_all = (\<lambda>i n.
          if i = Some ''appHalf'' \<and> n = ''Clients'' then Rejected timeout_failure
          else Resolved [\<lparr>rec_id = ''rec'' @ n, rec_fields = ''{}'',
                           rec_createdTime = ''2021-02-01T10:00:00.000Z''\<rparr>]),
      delete_collaborator = (\<lambda>i. Resolved ()),
      now_iso = (\<lambda>i. ''2021-03-01T00:00:00.000Z'')\<rparr>"

definition base_row :: "string \<Rightarrow> val \<Rightarrow> row" where
  "base_row i tag = (\<lambda>c. None)(''id'' := Some i, ''scan_id'' := tag)"

definition data_row :: "string \<Rightarrow> string \<Rightarrow> val \<Rightarrow> row" where
  "data_row base rid tag =
     (\<lambda>c. None)(''base_id'' := Some base, ''record_id'' := Some rid, ''scan_id'' := tag)"

text \<open>A store with no rows.\<close>

definition no_rows :: database where
  "no_rows = \<lparr>tables = (\<lambda>n. []), foreign_keys = False\<rparr>"

text \<open>A store met by the scan \<open>S1\<close> on resumption: \<open>appDone\<close> carries \<open>S1\<close> already,
  \<open>appHalf\<close> an older tag, \<open>appNew\<close> none.\<close>

definition example_state :: state where
  "example_state =
     \<lparr>db = \<lparr>tables = (\<lambda>n. if n = ''bases''
                           then [base_row ''appDone'' (Some ''S1''),
                                 base_row ''appHalf'' (Some ''S0''),
                                 base_row ''appNew'' None]
                           else []),
            foreign_keys = False\<rparr>,
      UNSCANNED_BASES = [],
      trace = []\<rparr>"

text \<open>A store whose only base is \<open>appDown\<close>.\<close>

definition down_state :: state where
  "down_state =
     \<lparr>db = \<lparr>tables = (\<lambda>n. if n = ''bases''
                           then [base_row ''appDown'' None]
                           else []),
            foreign_keys = False\<rparr>,
      UNSCANNED_BASES = [],
      trace = []\<rparr>"

text \<open>A store to reconcile with the scan \<open>S1\<close>: \<open>appDone\<close> carries \<open>S1\<close>, \<open>appGone\<close>
  an older tag and \<open>appLocked\<close> none; neither of the latter two can be scanned. The
  row \<open>recD\<close> of \<open>appGone\<close> carries \<open>S1\<close>, as a row does that an interrupted scan
  \<open>S1\<close> of the base wrote.\<close>

definition stale_state :: "bool \<Rightarrow> state" where
  "stale_state fk =
     \<lparr>db = \<lparr>tables = (\<lambda>n.
               if n = ''bases''
               then [base_row ''appDone'' (Some ''S1''), base_row ''appGone'' (Some ''S0''),
                     base_row ''appLocked'' None]
               else if n = ''data''
               then [data_row ''appDone'' ''recA'' (Some ''S1''),
                     data_row ''appGone'' ''recB'' (Some ''S0''),
                     data_row ''appLocked'' ''recC'' None,
                     data_row ''appGone'' ''recD'' (Some ''S1'')]
               else []),
            foreign_keys = fk\<rparr>,
      UNSCANNED_BASES = [],
      trace = []\<rparr>"

text \<open>A store whose only base, \<open>appHalf\<close>, is still to be scanned.\<close>

definition half_state :: "bool \<Rightarrow> state" where
  "half_state fk =
     \<lparr>db = \<lparr>tables = (\<lambda>n. if n = ''bases'' then [base_row ''appHalf'' (Some ''S0'')] else []),
            foreign_keys = fk\<rparr>,
      UNSCANNED_BASES = [],
      trace = []\<rparr>"

section \<open>requestWithRetry: what it returns and how long it waits\<close>

declare requestWithRetry.simps [simp del]

lemma rwr_resolved:
  "requestWithRetry (Resolved r) request_id retry_count = ([Awaited request_id], Inr r)"
  by (simp add: requestWithRetry.simps)

lemma rwr_rejected_other:
  "code err \<noteq> Some ''ETIMEDOUT'' \<Longrightarrow>
   requestWithRetry (Rejected err) request_id retry_count = ([Awaited request_id], Inl (Rejection err))"
  by (simp add: requestWithRetry.simps)

lemma rwr_undefined:
  "requestWithRetry request request_id None = requestWithRetry request request_id (Some 0)"
  by (subst requestWithRetry.simps, subst (2) requestWithRetry.simps) simp

lemma rwr_timeout_count:
  "code err = Some ''ETIMEDOUT'' \<Longrightarrow>
   requestWithRetry (Rejected err) request_id (Some n) =
     (concat (replicate (5 - n) [Awaited request_id, Slept 10000]) @ [Awaited request_id],
      Inl (Rejection err))"
proof (induction k \<equiv> "5 - n" arbitrary: n)
  case 0
  then show ?case by (simp add: requestWithRetry.simps)
next
  case (Suc k)
  from Suc.hyps(2) have lt: "n < 5" and k: "k = 5 - Suc n" by auto
  have unroll: "5 - n = Suc (5 - Suc n)" using lt by simp
  note ih = Suc.hyps(1)[OF k Suc.prems]
  show ?case
    by (subst requestWithRetry.simps, subst unroll)
       (simp add: ih lt Suc.prems)
qed

lemma rwr_timeout:
  "code err = Some ''ETIMEDOUT'' \<Longrightarrow>
   requestWithRetry (Rejected err) request_id None =
     (concat (replicate 5 [Awaited request_id, Slept 10000]) @ [Awaited request_id],
      Inl (Rejection err))"
  by (simp add: rwr_undefined rwr_timeout_count)

lemma rwr_snd: "snd (requestWithRetry p i None) = settled p"
proof (cases p)
  case (Resolved r)
  then show ?thesis by (simp add: settled_def rwr_resolved)
next
  case (Rejected err)
  then show ?thesis
    by (cases "code err = Some ''ETIMEDOUT''")
       (simp_all add: rwr_timeout rwr_rejected_other settled_def)
qed

lemma rwr_pair: "requestWithRetry p i None = (fst (requestWithRetry p i None), settled p)"
  by (metis prod.collapse rwr_snd)

text \<open>
  A promise that was rejected with \<open>ETIMEDOUT\<close> is awaited 6 times: once, and once
  more after each of 5 sleeps, since the guard \<open>retry_count < 5\<close> is tested with the
  count of retries already made (0, 1, 2, 3, 4 let a retry through).
\<close>

lemma requestWithRetry_awaits_six_times:
  "length (filter (\<lambda>e. e = Awaited (Some ''appA''))
     (fst (requestWithRetry
        (Rejected \<lparr>code = Some ''ETIMEDOUT'', response = None\<rparr> :: unit promise)
        (Some ''appA'') None))) = 6"
  by (simp add: rwr_timeout eval_nat_numeral)

text \<open>
  What requestWithRetry, called as the scan calls it (no retry count), returns and
  logs: a result after one await; a failure other than a timeout, unchanged, after one
  await and no sleep; after a timeout, that same failure, unchanged, after 5 sleeps of
  10000 ms and 6 awaits of the one promise.
\<close>

lemma requestWithRetry_outcome:
  "requestWithRetry request request_id None =
     (case request of
        Resolved r \<Rightarrow> ([Awaited request_id], Inr r)
      | Rejected err \<Rightarrow>
          if code err = Some ''ETIMEDOUT''
          then (concat (replicate 5 [Awaited request_id, Slept 10000]) @ [Awaited request_id],
                Inl (Rejection err))
          else ([Awaited request_id], Inl (Rejection err)))"
  by (simp add: rwr_resolved rwr_timeout rwr_rejected_other split: promise.split)

section \<open>The writes of the scan\<close>

lemma ior_data_bases:
  "tables (insert_or_replace d ''data'' new) ''bases'' = tables d ''bases''"
  by (simp add: insert_or_replace_def Let_def)

lemma ior_data_fk:
  "foreign_keys (insert_or_replace d ''data'' new) = foreign_keys d"
  by (simp add: insert_or_replace_def Let_def)

lemma ior_data_rows:
  "tables (insert_or_replace d ''data'' new) ''data'' =
     filter (\<lambda>r. \<not> (r ''record_id'' \<noteq> None \<and> r ''record_id'' = new ''record_id''))
       (tables d ''data'') @ [new]"
  by (simp add: insert_or_replace_def Let_def primary_key_def)

lemma issued_append: "issued (xs @ ys) = issued xs @ issued ys"
  by (induction xs rule: issued.induct) simp_all

lemma issued_rwr: "issued (fst (requestWithRetry p i None)) = []"
proof (cases p)
  case (Resolved r)
  then show ?thesis by (simp add: rwr_resolved)
next
  case (Rejected err)
  then show ?thesis
    by (cases "code err = Some ''ETIMEDOUT''")
       (simp_all add: rwr_timeout rwr_rejected_other eval_nat_numeral)
qed

lemma write_record_bases:
  "tables (write_record S i t d rec) ''bases'' = tables d ''bases''"
  by (simp add: write_record_def ior_data_bases)

lemma write_record_fk:
  "foreign_keys (write_record S i t d rec) = foreign_keys d"
  by (simp add: write_record_def ior_data_fk)

lemma write_record_rows:
  "tables (write_record S i t d rec) ''data'' =
     filter (\<lambda>r. r ''record_id'' \<noteq> Some (rec_id rec)) (tables d ''data'') @
     [(\<lambda>c. None)(''base_id'' := i, ''table_id'' := Some (t_id t),
        ''record_id'' := Some (rec_id rec), ''created_time'' := Some (rec_fields rec),
        ''data'' := Some (rec_createdTime rec), ''scan_id'' := Some S)]"
  by (simp add: write_record_def ior_data_rows) (metis option.distinct(1))

lemma write_record_holds:
  "holds_record (write_record S i t d rec) i (rec_id rec) S"
  by (simp add: holds_record_def write_record_rows)

lemma write_record_keeps:
  "holds_record d i rid S \<Longrightarrow> holds_record (write_record S i t d rec) i rid S"
  by (cases "rid = rec_id rec") (auto simp: holds_record_def write_record_rows)

lemma foldl_write_record_bases:
  "tables (foldl (write_record S i t) d recs) ''bases'' = tables d ''bases''"
  by (induction recs arbitrary: d) (simp_all add: write_record_bases)

lemma foldl_write_record_fk:
  "foreign_keys (foldl (write_record S i t) d recs) = foreign_keys d"
  by (induction recs arbitrary: d) (simp_all add: write_record_fk)

lemma foldl_write_record_keeps:
  "holds_record d i rid S \<Longrightarrow> holds_record (foldl (write_record S i t) d recs) i rid S"
  by (induction recs arbitrary: d) (simp_all add: write_record_keeps)

lemma foldl_write_record_holds:
  "rec \<in> set recs \<Longrightarrow> holds_record (foldl (write_record S i t) d recs) i (rec_id rec) S"
proof (induction recs arbitrary: d)
  case Nil
  then show ?case by simp
next
  case (Cons a recs)
  show ?case
  proof (cases "rec = a")
    case True
    then show ?thesis
      by (simp add: foldl_write_record_keeps write_record_holds)
  next
    case False
    with Cons show ?thesis by simp
  qed
qed

subsection \<open>One table\<close>

lemma scanTable_rejected:
  "select_all env i (t_name t) = Rejected err \<Longrightarrow>
   scanTable env S i t st =
     (Inl (Rejection err),
      logged st (Issued (Select_all i (t_name t)) #
        fst (requestWithRetry (Rejected err :: airtable_record list promise) (Some (t_id t)) None)))"
  unfolding scanTable_def
  by (subst rwr_pair) (simp add: settled_def)

lemma scanTable_resolved:
  "select_all env i (t_name t) = Resolved recs \<Longrightarrow>
   scanTable env S i t st =
     (Inr (length recs),
      (logged st [Issued (Select_all i (t_name t)), Awaited (Some (t_id t))])
        \<lparr>db := foldl (write_record S i t) (db st) recs\<rparr>)"
  unfolding scanTable_def
  by (simp add: rwr_resolved logged_def)

text \<open>
  C4 (a defect of the code). The record listing of the table \<open>Clients\<close> of
  \<open>appHalf\<close> times out. The table mapper sends the listing once (line 188) and hands
  its promise to requestWithRetry, which sleeps 10000 ms five times and awaits that one
  promise six times: between the sleeps no listing is sent again, so each "retry"
  finds the failure of the first and only attempt, and after 50 seconds of waiting
  that failure is thrown. The operation is not retried, against the comment and the
  log lines of the function (\<open>only retry a request 5 times\<close>,
  \<open>Sleeping and retrying\<close>, \<open>waking and retrying\<close>).
\<close>

theorem requestWithRetry_sends_nothing_again:
  "scanTable example_remote ''S1'' (Some ''appHalf'')
     \<lparr>t_id = ''tblClients'', t_name = ''Clients''\<rparr> example_state =
   (Inl (Rejection timeout_failure),
    example_state\<lparr>trace :=
      [Issued (Select_all (Some ''appHalf'') ''Clients''),
       Awaited (Some ''tblClients''), Slept 10000,
       Awaited (Some ''tblClients''), Slept 10000,
       Awaited (Some ''tblClients''), Slept 10000,
       Awaited (Some ''tblClients''), Slept 10000,
       Awaited (Some ''tblClients''), Slept 10000,
       Awaited (Some ''tblClients'')]\<rparr>) \<and>
   issued (trace (snd (scanTable example_remote ''S1'' (Some ''appHalf'')
     \<lparr>t_id = ''tblClients'', t_name = ''Clients''\<rparr> example_state)))
   = [Select_all (Some ''appHalf'') ''Clients'']"
proof -
  have "select_all example_remote (Some ''appHalf'')
      (t_name \<lparr>t_id = ''tblClients'', t_name = ''Clients''\<rparr>) = Rejected timeout_failure"
    by (simp add: example_remote_def)
  from scanTable_rejected[OF this] show ?thesis
    by (simp add: rwr_timeout timeout_failure_def logged_def example_state_def eval_nat_numeral)
qed

subsection \<open>Mapping over a list\<close>

lemma promise_map_append:
  "promise_map f (xs @ ys) s =
     (case promise_map f xs s of
        (Inl e, s1) \<Rightarrow> (Inl e, s1)
      | (Inr as, s1) \<Rightarrow>
          (case promise_map f ys s1 of
             (Inl e, s2) \<Rightarrow> (Inl e, s2)
           | (Inr bs, s2) \<Rightarrow> (Inr (as @ bs), s2)))"
  by (induction xs arbitrary: s) (auto split: prod.splits sum.splits)

lemma promise_map_invariant:
  assumes step: "\<And>x s r s'. f x s = (r, s') \<Longrightarrow> P s \<Longrightarrow> P s'"
    and "P s" and "promise_map f xs s = (r, s')"
  shows "P s'"
  using assms(2,3)
proof (induction xs arbitrary: s r s')
  case Nil
  then show ?case by simp
next
  case (Cons x xs)
  obtain r1 s1 where f: "f x s = (r1, s1)" by (cases "f x s")
  with Cons.prems(1) have P1: "P s1" by (rule step[rotated])
  show ?case
  proof (cases r1)
    case (Inl e)
    with f Cons.prems(2) P1 show ?thesis by simp
  next
    case (Inr y)
    obtain r2 s2 where pm: "promise_map f xs s1 = (r2, s2)" by (cases "promise_map f xs s1")
    from Cons.IH[OF P1 pm] have "P s2" .
    with f Inr pm Cons.prems(2) show ?thesis by (auto split: sum.splits)
  qed
qed

subsection \<open>The tables of a base\<close>

lemma scanTable_issued:
  "scanTable env S i t st = (r, st') \<Longrightarrow>
   issued (trace st') = issued (trace st) @ [Select_all i (t_name t)]"
  by (cases "select_all env i (t_name t)")
     (auto simp: scanTable_resolved scanTable_rejected logged_def issued_append issued_rwr)

lemma scanTable_frame:
  "scanTable env S i t st = (r, st') \<Longrightarrow>
   tables (db st') ''bases'' = tables (db st) ''bases'' \<and>
   UNSCANNED_BASES st' = UNSCANNED_BASES st \<and>
   foreign_keys (db st') = foreign_keys (db st)"
  by (cases "select_all env i (t_name t)")
     (auto simp: scanTable_resolved scanTable_rejected logged_def
        foldl_write_record_bases foldl_write_record_fk)

lemma scanTable_keeps:
  "scanTable env S i t st = (r, st') \<Longrightarrow> holds_record (db st) i rid S \<Longrightarrow>
   holds_record (db st') i rid S"
  by (cases "select_all env i (t_name t)")
     (auto simp: scanTable_resolved scanTable_rejected logged_def foldl_write_record_keeps)

lemma scanTables_frame:
  assumes "promise_map (scanTable env S i) ts st = (r, st')"
  shows "tables (db st') ''bases'' = tables (db st) ''bases'' \<and>
         UNSCANNED_BASES st' = UNSCANNED_BASES st \<and>
         foreign_keys (db st') = foreign_keys (db st)"
  by (rule promise_map_invariant
        [where f = "scanTable env S i" and s = st and xs = ts and r = r
           and P = "\<lambda>s. tables (db s) ''bases'' = tables (db st) ''bases'' \<and>
                        UNSCANNED_BASES s = UNSCANNED_BASES st \<and>
                        foreign_keys (db s) = foreign_keys (db st)"])
     (use assms in \<open>auto dest: scanTable_frame\<close>)

lemma scanTables_keeps:
  assumes "promise_map (scanTable env S i) ts st = (r, st')"
    and "holds_record (db st) i rid S"
  shows "holds_record (db st') i rid S"
  by (rule promise_map_invariant
        [where f = "scanTable env S i" and s = st and xs = ts and r = r
           and P = "\<lambda>s. holds_record (db s) i rid S"])
     (use assms in \<open>auto dest: scanTable_keeps\<close>)

lemma scanTables_written:
  "promise_map (scanTable env S i) ts st = (Inr ns, st') \<Longrightarrow> t \<in> set ts \<Longrightarrow>
   \<exists>recs. select_all env i (t_name t) = Resolved recs \<and>
          (\<forall>rec\<in>set recs. holds_record (db st') i (rec_id rec) S)"
proof (induction ts arbitrary: st ns)
  case Nil
  then show ?case by simp
next
  case (Cons a ts)
  obtain r1 s1 where a: "scanTable env S i a st = (r1, s1)" by (cases "scanTable env S i a st")
  with Cons.prems(1) obtain n where r1: "r1 = Inr n" by (cases r1) auto
  obtain r2 s2 where rest: "promise_map (scanTable env S i) ts s1 = (r2, s2)"
    by (cases "promise_map (scanTable env S i) ts s1")
  with a r1 Cons.prems(1) obtain ms where r2: "r2 = Inr ms" and s2: "s2 = st'"
    by (cases r2) auto
  show ?case
  proof (cases "t = a")
    case True
    from a r1 obtain recs where res: "select_all env i (t_name a) = Resolved recs"
      by (cases "select_all env i (t_name a)") (auto simp: scanTable_rejected)
    with a have "s1 = (logged st [Issued (Select_all i (t_name a)), Awaited (Some (t_id a))])
        \<lparr>db := foldl (write_record S i a) (db st) recs\<rparr>"
      by (simp add: scanTable_resolved)
    then have "\<forall>rec\<in>set recs. holds_record (db s1) i (rec_id rec) S"
      by (simp add: foldl_write_record_holds)
    with rest s2 have "\<forall>rec\<in>set recs. holds_record (db st') i (rec_id rec) S"
      by (auto intro: scanTables_keeps)
    with res True show ?thesis by auto
  next
    case False
    with Cons.prems(2) have "t \<in> set ts" by simp
    from Cons.IH[OF rest[unfolded r2 s2] this] show ?thesis .
  qed
qed

lemma scanTables_resolved:
  "\<forall>t\<in>set ts. \<exists>recs. select_all env i (t_name t) = Resolved recs \<Longrightarrow>
   \<exists>ns st'. promise_map (scanTable env S i) ts st = (Inr ns, st') \<and>
     issued (trace st') = issued (trace st) @ map (\<lambda>t. Select_all i (t_name t)) ts"
proof (induction ts arbitrary: st)
  case Nil
  then show ?case by simp
next
  case (Cons a ts)
  then obtain recs where res: "select_all env i (t_name a) = Resolved recs" by auto
  define s1 where "s1 = (logged st [Issued (Select_all i (t_name a)), Awaited (Some (t_id a))])
        \<lparr>db := foldl (write_record S i a) (db st) recs\<rparr>"
  have a: "scanTable env S i a st = (Inr (length recs), s1)"
    using res by (simp add: scanTable_resolved s1_def)
  from Cons obtain ns st' where rest: "promise_map (scanTable env S i) ts s1 = (Inr ns, st')"
    and tr: "issued (trace st') = issued (trace s1) @ map (\<lambda>t. Select_all i (t_name t)) ts"
    by (metis list.set_intros(2))
  have "issued (trace s1) = issued (trace st) @ [Select_all i (t_name a)]"
    using a by (rule scanTable_issued)
  with a rest tr show ?case by simp
qed

lemma scanTables_rejected:
  assumes "\<forall>t\<in>set ts1. \<exists>recs. select_all env i (t_name t) = Resolved recs"
    and "select_all env i (t_name t) = Rejected err"
  shows "\<exists>st'. promise_map (scanTable env S i) (ts1 @ t # ts2) st = (Inl (Rejection err), st') \<and>
     issued (trace st') = issued (trace st) @ map (\<lambda>t. Select_all i (t_name t)) (ts1 @ [t])"
proof -
  from scanTables_resolved[OF assms(1)] obtain ns s1
    where pre: "promise_map (scanTable env S i) ts1 st = (Inr ns, s1)"
      and tr: "issued (trace s1) = issued (trace st) @ map (\<lambda>t. Select_all i (t_name t)) ts1"
    by blast
  obtain s2 where t: "scanTable env S i t s1 = (Inl (Rejection err), s2)"
    using assms(2) by (simp add: scanTable_rejected)
  have "issued (trace s2) = issued (trace s1) @ [Select_all i (t_name t)]"
    using t by (rule scanTable_issued)
  with pre tr t show ?thesis by (simp add: promise_map_append)
qed

subsection \<open>One base\<close>

lemma scanBase_post_rejected:
  "post_collaborators env (b ''id'') = Rejected err \<Longrightarrow>
   scanBase env S b st =
     catch_post_collaborators (Rejection err) (b ''id'')
       (logged st (Issued (Post_collaborators (b ''id'')) #
          fst (requestWithRetry (Rejected err :: unit promise) (b ''id'') None)))"
  unfolding scanBase_def Let_def case_prod_beta
  by (simp add: rwr_snd settled_def)

lemma scanBase_tables_rejected:
  "post_collaborators env (b ''id'') = Resolved u \<Longrightarrow>
   get_tables env (b ''id'') = Rejected err \<Longrightarrow>
   scanBase env S b st =
     catch_get_tables (Rejection err)
       (logged (logged st [Issued (Post_collaborators (b ''id'')), Awaited (b ''id'')])
          (Issued (Get_tables (b ''id'')) #
             fst (requestWithRetry (Rejected err :: airtable_table list promise) (b ''id'') None)))"
  unfolding scanBase_def Let_def case_prod_beta
  by (simp add: rwr_snd settled_def rwr_resolved)

lemma scanBase_tables_failed:
  "post_collaborators env (b ''id'') = Resolved u \<Longrightarrow>
   get_tables env (b ''id'') = Resolved ts \<Longrightarrow>
   promise_map (scanTable env S (b ''id'')) ts (granted st (b ''id'')) = (Inl err, st3) \<Longrightarrow>
   scanBase env S b st =
     (Inr None, st3\<lparr>UNSCANNED_BASES := UNSCANNED_BASES st3 @ [b ''id'']\<rparr>)"
  unfolding scanBase_def Let_def case_prod_beta granted_def
  by (simp add: rwr_snd settled_def rwr_resolved)

lemma scanBase_tables_done:
  "post_collaborators env (b ''id'') = Resolved u \<Longrightarrow>
   get_tables env (b ''id'') = Resolved ts \<Longrightarrow>
   promise_map (scanTable env S (b ''id'')) ts (granted st (b ''id'')) = (Inr ns, st3) \<Longrightarrow>
   scanBase env S b st =
     (case reduce_sum ns of
        Inl err \<Rightarrow> (Inl err, st3)
      | Inr num_records \<Rightarrow>
          (let st4 = logged st3 (Issued (Delete_collaborator (b ''id'')) #
                       fst (requestWithRetry (delete_collaborator env (b ''id'')) (b ''id'') None));
               marked = st4\<lparr>db := update_scan (db st4) (now_iso env (b ''id'')) S (b ''id'')\<rparr>
           in case delete_collaborator env (b ''id'') of
                Resolved r \<Rightarrow> (Inr None, marked)
              | Rejected e \<Rightarrow>
                  (case response e of
                     None \<Rightarrow> (Inl TypeError, st4)
                   | Some r \<Rightarrow> if status r = 403 then (Inr None, marked)
                               else (Inl (Rejection e), st4))))"
  unfolding scanBase_def Let_def case_prod_beta granted_def
  by (cases "reduce_sum ns"; cases "delete_collaborator env (b ''id'')")
     (auto simp: rwr_snd settled_def rwr_resolved catch_delete_collaborator_def
        split: option.splits)

lemma catch_post_collaborators_db:
  "catch_post_collaborators e i s = (r, s') \<Longrightarrow> db s' = db s"
  by (auto simp: catch_post_collaborators_def split: sum.splits if_splits)

lemma catch_get_tables_same:
  "catch_get_tables e s = (r, s') \<Longrightarrow> s' = s"
  by (auto simp: catch_get_tables_def split: sum.splits if_splits)

lemma update_scan_data:
  "tables (update_scan d now S i) ''data'' = tables d ''data''"
  by (simp add: update_scan_def)

lemma holds_record_update_scan:
  "holds_record (update_scan d now S i) j rid S' = holds_record d j rid S'"
  by (simp add: holds_record_def update_scan_data)

lemma granted_frame:
  "db (granted st i) = db st \<and> UNSCANNED_BASES (granted st i) = UNSCANNED_BASES st \<and>
   issued (trace (granted st i)) = issued (trace st) @ [Post_collaborators i, Get_tables i]"
  by (simp add: granted_def logged_def issued_append)

lemma scanBase_marked_written:
  assumes run: "scanBase env S b st = (res, st')"
    and changed: "tables (db st') ''bases'' \<noteq> tables (db st) ''bases''"
  shows "\<exists>ts. get_tables env (b ''id'') = Resolved ts \<and>
           (\<forall>t\<in>set ts. \<exists>recs. select_all env (b ''id'') (t_name t) = Resolved recs \<and>
              (\<forall>rec\<in>set recs. holds_record (db st') (b ''id'') (rec_id rec) S))"
proof (cases "post_collaborators env (b ''id'')")
  case (Rejected err)
  from run have "db st' = db st"
    unfolding scanBase_post_rejected[where b = b, OF Rejected]
    by (drule_tac catch_post_collaborators_db) (simp add: logged_def)
  with changed show ?thesis by simp
next
  case (Resolved u)
  show ?thesis
  proof (cases "get_tables env (b ''id'')")
    case (Rejected err)
    from run have "db st' = db st"
      unfolding scanBase_tables_rejected[where b = b, OF Resolved Rejected]
      by (drule_tac catch_get_tables_same) (simp add: logged_def)
    with changed show ?thesis by simp
  next
    case ts: (Resolved ts)
    obtain r3 st3 where pm:
      "promise_map (scanTable env S (b ''id'')) ts (granted st (b ''id'')) = (r3, st3)"
      by (cases "promise_map (scanTable env S (b ''id'')) ts (granted st (b ''id''))")
    from scanTables_frame[OF pm]
    have frame: "tables (db st3) ''bases'' = tables (db st) ''bases''"
      by (simp add: granted_frame)
    show ?thesis
    proof (cases r3)
      case (Inl err)
      with Resolved ts pm run have "st' = st3\<lparr>UNSCANNED_BASES := UNSCANNED_BASES st3 @ [b ''id'']\<rparr>"
        by (simp add: scanBase_tables_failed)
      with frame changed show ?thesis by simp
    next
      case (Inr ns)
      have written: "\<forall>t\<in>set ts. \<exists>recs. select_all env (b ''id'') (t_name t) = Resolved recs \<and>
              (\<forall>rec\<in>set recs. holds_record (db st3) (b ''id'') (rec_id rec) S)"
        using scanTables_written[OF pm[unfolded Inr]] by blast
      have "tables (db st') ''data'' = tables (db st3) ''data''"
        using run unfolding scanBase_tables_done[where b = b, OF Resolved ts pm[unfolded Inr]]
        by (cases "reduce_sum ns"; cases "delete_collaborator env (b ''id'')")
           (auto simp: Let_def logged_def update_scan_data split: option.splits if_splits)
      then have "holds_record (db st') i rid S = holds_record (db st3) i rid S" for i rid
        by (simp add: holds_record_def)
      with written ts show ?thesis by simp
    qed
  qed
qed

lemma first_rejected:
  assumes "\<exists>t\<in>set ts. \<exists>err. select_all env i (t_name t) = Rejected err"
  shows "\<exists>ts1 t ts2 err. ts = ts1 @ t # ts2 \<and> select_all env i (t_name t) = Rejected err \<and>
           (\<forall>t'\<in>set ts1. \<exists>recs. select_all env i (t_name t') = Resolved recs)"
proof -
  from split_list_first_prop[OF assms] obtain ts1 t ts2
    where split: "ts = ts1 @ t # ts2"
      and bad: "\<exists>err. select_all env i (t_name t) = Rejected err"
      and good: "\<forall>t'\<in>set ts1. \<not> (\<exists>err. select_all env i (t_name t') = Rejected err)"
    by blast
  from bad obtain err where err: "select_all env i (t_name t) = Rejected err" ..
  have "\<forall>t'\<in>set ts1. \<exists>recs. select_all env i (t_name t') = Resolved recs"
  proof
    fix t' assume "t' \<in> set ts1"
    with good have "\<not> (\<exists>err. select_all env i (t_name t') = Rejected err)" ..
    then show "\<exists>recs. select_all env i (t_name t') = Resolved recs"
      by (cases "select_all env i (t_name t')") simp_all
  qed
  with split err show ?thesis by blast
qed

lemma scanBase_table_rejected:
  assumes run: "scanBase env S b st = (res, st')"
    and post: "post_collaborators env (b ''id'') = Resolved u"
    and ts: "get_tables env (b ''id'') = Resolved (ts1 @ t # ts2)"
    and ok: "\<forall>t'\<in>set ts1. \<exists>recs. select_all env (b ''id'') (t_name t') = Resolved recs"
    and bad: "select_all env (b ''id'') (t_name t) = Rejected err"
  shows "res = Inr None \<and>
         UNSCANNED_BASES st' = UNSCANNED_BASES st @ [b ''id''] \<and>
         tables (db st') ''bases'' = tables (db st) ''bases'' \<and>
         issued (trace st') = issued (trace st) @
           Post_collaborators (b ''id'') # Get_tables (b ''id'') #
           map (\<lambda>t. Select_all (b ''id'') (t_name t)) (ts1 @ [t]) \<and>
         (\<forall>t'\<in>set ts1. \<forall>recs. select_all env (b ''id'') (t_name t') = Resolved recs \<longrightarrow>
            (\<forall>rec\<in>set recs. holds_record (db st') (b ''id'') (rec_id rec) S))"
proof -
  from scanTables_rejected[OF ok bad] obtain st3 where
    pm: "promise_map (scanTable env S (b ''id'')) (ts1 @ t # ts2) (granted st (b ''id'')) =
           (Inl (Rejection err), st3)"
    and tr: "issued (trace st3) = issued (trace (granted st (b ''id''))) @
           map (\<lambda>t. Select_all (b ''id'') (t_name t)) (ts1 @ [t])"
    by blast
  from run have st': "st' = st3\<lparr>UNSCANNED_BASES := UNSCANNED_BASES st3 @ [b ''id'']\<rparr>"
    and res: "res = Inr None"
    by (simp_all add: scanBase_tables_failed[where b = b, OF post ts pm])
  note frame = scanTables_frame[OF pm]
  obtain ns s1 where pre:
    "promise_map (scanTable env S (b ''id'')) ts1 (granted st (b ''id'')) = (Inr ns, s1)"
    using scanTables_resolved[OF ok] by blast
  obtain r2 s2 where post2: "promise_map (scanTable env S (b ''id'')) (t # ts2) s1 = (r2, s2)"
    by (cases "promise_map (scanTable env S (b ''id'')) (t # ts2) s1")
  from pm have "s2 = st3"
    by (cases r2) (simp_all add: promise_map_append pre post2 del: promise_map.simps)
  with post2 have post': "promise_map (scanTable env S (b ''id'')) (t # ts2) s1 = (r2, st3)"
    by simp
  have "holds_record (db st3) (b ''id'') (rec_id rec) S"
    if "t' \<in> set ts1" "select_all env (b ''id'') (t_name t') = Resolved recs" "rec \<in> set recs"
    for t' recs rec
  proof -
    from scanTables_written[OF pre that(1)] that(2,3)
    have "holds_record (db s1) (b ''id'') (rec_id rec) S" by auto
    then show ?thesis by (rule scanTables_keeps[OF post'])
  qed
  with st' res frame tr show ?thesis
    by (simp add: granted_frame)
qed

lemma update_scan_bases:
  "tables (update_scan d now S i) ''bases'' =
     map (\<lambda>r. if r ''id'' \<noteq> None \<and> r ''id'' = i
              then r(''scan_time'' \<mapsto> now, ''scan_id'' \<mapsto> S) else r) (tables d ''bases'')"
  by (simp add: update_scan_def)

lemma scanBase_bases:
  assumes run: "scanBase env S b st = (res, st')"
  shows "tables (db st') ''bases'' = tables (db st) ''bases'' \<or>
         tables (db st') ''bases'' =
           tables (update_scan (db st) (now_iso env (b ''id'')) S (b ''id'')) ''bases''"
proof (cases "post_collaborators env (b ''id'')")
  case (Rejected err)
  from run have "db st' = db st"
    unfolding scanBase_post_rejected[where b = b, OF Rejected]
    by (drule_tac catch_post_collaborators_db) (simp add: logged_def)
  then show ?thesis by simp
next
  case (Resolved u)
  show ?thesis
  proof (cases "get_tables env (b ''id'')")
    case (Rejected err)
    from run have "db st' = db st"
      unfolding scanBase_tables_rejected[where b = b, OF Resolved Rejected]
      by (drule_tac catch_get_tables_same) (simp add: logged_def)
    then show ?thesis by simp
  next
    case ts: (Resolved ts)
    obtain r3 st3 where pm:
      "promise_map (scanTable env S (b ''id'')) ts (granted st (b ''id'')) = (r3, st3)"
      by (cases "promise_map (scanTable env S (b ''id'')) ts (granted st (b ''id''))")
    from scanTables_frame[OF pm]
    have frame: "tables (db st3) ''bases'' = tables (db st) ''bases''"
      by (simp add: granted_frame)
    show ?thesis
    proof (cases r3)
      case (Inl err)
      with Resolved ts pm run have "st' = st3\<lparr>UNSCANNED_BASES := UNSCANNED_BASES st3 @ [b ''id'']\<rparr>"
        by (simp add: scanBase_tables_failed)
      with frame show ?thesis by simp
    next
      case (Inr ns)
      show ?thesis
        using run frame unfolding scanBase_tables_done[where b = b, OF Resolved ts pm[unfolded Inr]]
        by (cases "reduce_sum ns"; cases "delete_collaborator env (b ''id'')")
           (auto simp: Let_def logged_def update_scan_bases split: option.splits if_splits)
    qed
  qed
qed

text \<open>
  C1. The scan of a base with scan identifier \<open>S\<close> changes the \<open>bases\<close> table
  only by the final UPDATE that sets \<open>scan_id = S\<close>, and only when the table list
  was read and every table of the base was read and each of its records written, tagged
  \<open>S\<close>, for this base. If a table fails (after the retries), the mapper returns
  without error, the base is appended to \<open>UNSCANNED_BASES\<close>, the \<open>bases\<close> table
  is unchanged, and the call that removes the administrator is not sent.
\<close>

theorem scanBase_marks_after_all_tables:
  assumes "scanBase env S b st = (res, st')"
  shows "(tables (db st') ''bases'' \<noteq> tables (db st) ''bases'' \<longrightarrow>
            tables (db st') ''bases'' =
              tables (update_scan (db st) (now_iso env (b ''id'')) S (b ''id'')) ''bases'' \<and>
            (\<exists>ts. get_tables env (b ''id'') = Resolved ts \<and>
               (\<forall>t\<in>set ts. \<exists>recs. select_all env (b ''id'') (t_name t) = Resolved recs \<and>
                  (\<forall>rec\<in>set recs. holds_record (db st') (b ''id'') (rec_id rec) S)))) \<and>
         (\<forall>u ts. post_collaborators env (b ''id'') = Resolved u \<and>
                 get_tables env (b ''id'') = Resolved ts \<and>
                 (\<exists>t\<in>set ts. \<exists>err. select_all env (b ''id'') (t_name t) = Rejected err) \<longrightarrow>
            res = Inr None \<and>
            UNSCANNED_BASES st' = UNSCANNED_BASES st @ [b ''id''] \<and>
            tables (db st') ''bases'' = tables (db st) ''bases'' \<and>
            (\<exists>calls. issued (trace st') = issued (trace st) @ calls \<and>
                     Delete_collaborator (b ''id'') \<notin> set calls))"
proof (intro conjI impI allI)
  assume "tables (db st') ''bases'' \<noteq> tables (db st) ''bases''"
  with scanBase_bases[OF assms]
  show "tables (db st') ''bases'' =
          tables (update_scan (db st) (now_iso env (b ''id'')) S (b ''id'')) ''bases''"
    by simp
next
  assume "tables (db st') ''bases'' \<noteq> tables (db st) ''bases''"
  with assms show "\<exists>ts. get_tables env (b ''id'') = Resolved ts \<and>
     (\<forall>t\<in>set ts. \<exists>recs. select_all env (b ''id'') (t_name t) = Resolved recs \<and>
        (\<forall>rec\<in>set recs. holds_record (db st') (b ''id'') (rec_id rec) S))"
    by (rule scanBase_marked_written)
next
  fix u ts
  assume h: "post_collaborators env (b ''id'') = Resolved u \<and>
     get_tables env (b ''id'') = Resolved ts \<and>
     (\<exists>t\<in>set ts. \<exists>err. select_all env (b ''id'') (t_name t) = Rejected err)"
  then obtain ts1 t ts2 err where split: "ts = ts1 @ t # ts2"
    and bad: "select_all env (b ''id'') (t_name t) = Rejected err"
    and ok: "\<forall>t'\<in>set ts1. \<exists>recs. select_all env (b ''id'') (t_name t') = Resolved recs"
    using first_rejected[of ts env "b ''id''"] by blast
  from h split have post: "post_collaborators env (b ''id'') = Resolved u"
    and tbls: "get_tables env (b ''id'') = Resolved (ts1 @ t # ts2)" by simp_all
  note r = scanBase_table_rejected[where b = b, OF assms post tbls ok bad]
  from r show "res = Inr None" by simp
  from r show "UNSCANNED_BASES st' = UNSCANNED_BASES st @ [b ''id'']" by simp
  from r show "tables (db st') ''bases'' = tables (db st) ''bases''" by simp
  from r have "issued (trace st') = issued (trace st) @
           Post_collaborators (b ''id'') # Get_tables (b ''id'') #
           map (\<lambda>t. Select_all (b ''id'') (t_name t)) (ts1 @ [t])" by simp
  moreover have "Delete_collaborator (b ''id'') \<notin> set (Post_collaborators (b ''id'') #
      Get_tables (b ''id'') # map (\<lambda>t. Select_all (b ''id'') (t_name t)) (ts1 @ [t]))"
    by auto
  ultimately show "\<exists>calls. issued (trace st') = issued (trace st) @ calls \<and>
                     Delete_collaborator (b ''id'') \<notin> set calls"
    by blast
qed

lemmas example_defs = example_remote_def example_state_def base_row_def http_failure_def
  timeout_failure_def

lemmas scan_defs = scanBase_def scanTable_def logged_def write_record_def
  insert_or_replace_def primary_key_def update_scan_def reduce_sum_def Let_def
  requestWithRetry.simps catch_post_collaborators_def catch_get_tables_def
  catch_delete_collaborator_def cascade_def

lemma example_new_marked:
  "tables (db (snd (scanBase example_remote ''S1'' (base_row ''appNew'' None) example_state))) ''bases''
     = [base_row ''appDone'' (Some ''S1''), base_row ''appHalf'' (Some ''S0''),
        (base_row ''appNew'' None)(''scan_time'' \<mapsto> ''2021-03-01T00:00:00.000Z'',
           ''scan_id'' \<mapsto> ''S1'')]"
  by (simp add: example_defs scan_defs)

theorem scanBase_marks_after_all_tables_witness:
  "tables (db (snd (scanBase example_remote ''S1'' (base_row ''appNew'' None) example_state))) ''bases''
     \<noteq> tables (db example_state) ''bases'' \<and>
   holds_record (db (snd (scanBase example_remote ''S1'' (base_row ''appNew'' None) example_state)))
     (Some ''appNew'') ''recOrders'' ''S1'' \<and>
   holds_record (db (snd (scanBase example_remote ''S1'' (base_row ''appNew'' None) example_state)))
     (Some ''appNew'') ''recClients'' ''S1'' \<and>
   select_all example_remote (Some ''appHalf'') ''Clients'' = Rejected timeout_failure \<and>
   fst (scanBase example_remote ''S1'' (base_row ''appHalf'' (Some ''S0'')) example_state) = Inr None \<and>
   UNSCANNED_BASES (snd (scanBase example_remote ''S1'' (base_row ''appHalf'' (Some ''S0'')) example_state))
     = [Some ''appHalf''] \<and>
   tables (db (snd (scanBase example_remote ''S1'' (base_row ''appHalf'' (Some ''S0'')) example_state))) ''bases''
     = tables (db example_state) ''bases''"
proof -
  let ?new = "scanBase example_remote ''S1'' (base_row ''appNew'' None) example_state"
  let ?half = "scanBase example_remote ''S1'' (base_row ''appHalf'' (Some ''S0'')) example_state"
  have "map (\<lambda>r. r ''scan_id'') (tables (db (snd ?new)) ''bases'')
          \<noteq> map (\<lambda>r. r ''scan_id'') (tables (db example_state) ''bases'')"
    by (simp add: example_new_marked) (simp add: example_defs)
  then have changed: "tables (db (snd ?new)) ''bases'' \<noteq> tables (db example_state) ''bases''"
    by auto
  have new: "?new = (fst ?new, snd ?new)" and half: "?half = (fst ?half, snd ?half)"
    by simp_all
  from scanBase_marks_after_all_tables[OF new] changed
  have "\<exists>ts. get_tables example_remote (base_row ''appNew'' None ''id'') = Resolved ts \<and>
     (\<forall>t\<in>set ts. \<exists>recs. select_all example_remote (base_row ''appNew'' None ''id'') (t_name t) = Resolved recs \<and>
        (\<forall>rec\<in>set recs. holds_record (db (snd ?new)) (base_row ''appNew'' None ''id'') (rec_id rec) ''S1''))"
    by blast
  then have written: "holds_record (db (snd ?new)) (Some ''appNew'') ''recOrders'' ''S1'' \<and>
     holds_record (db (snd ?new)) (Some ''appNew'') ''recClients'' ''S1''"
    by (simp add: example_remote_def base_row_def)
  have bad: "select_all example_remote (Some ''appHalf'') ''Clients'' = Rejected timeout_failure"
    by (simp add: example_remote_def)
  have "post_collaborators example_remote (base_row ''appHalf'' (Some ''S0'') ''id'') = Resolved () \<and>
     get_tables example_remote (base_row ''appHalf'' (Some ''S0'') ''id'') =
       Resolved [\<lparr>t_id = ''tblOrders'', t_name = ''Orders''\<rparr>,
                 \<lparr>t_id = ''tblClients'', t_name = ''Clients''\<rparr>] \<and>
     (\<exists>t\<in>set [\<lparr>t_id = ''tblOrders'', t_name = ''Orders''\<rparr>,
                 \<lparr>t_id = ''tblClients'', t_name = ''Clients''\<rparr>].
        \<exists>err. select_all example_remote (base_row ''appHalf'' (Some ''S0'') ''id'') (t_name t) = Rejected err)"
    by (simp add: example_remote_def base_row_def)
  with scanBase_marks_after_all_tables[OF half]
  have "fst ?half = Inr None \<and>
     UNSCANNED_BASES (snd ?half) = UNSCANNED_BASES example_state @ [base_row ''appHalf'' (Some ''S0'') ''id''] \<and>
     tables (db (snd ?half)) ''bases'' = tables (db example_state) ''bases''"
    by blast
  then have "fst ?half = Inr None \<and> UNSCANNED_BASES (snd ?half) = [Some ''appHalf''] \<and>
     tables (db (snd ?half)) ''bases'' = tables (db example_state) ''bases''"
    by (simp add: example_state_def base_row_def)
  with changed written bad show ?thesis by simp
qed

text \<open>
  C6. When the collaborator grant of a base fails with a response: if the status is 404
  or the body's error is NOT_FOUND, the mapper returns 0, \<open>UNSCANNED_BASES\<close> and the
  store are unchanged, and no further call is sent; if the status is 403 (and the error
  is not NOT_FOUND), the mapper returns 0, the base identifier is appended to
  \<open>UNSCANNED_BASES\<close>, the store is unchanged, and no further call is sent.
\<close>

theorem scanBase_grant_refused:
  assumes "scanBase env S b st = (res, st')"
    and "post_collaborators env (b ''id'') = Rejected err"
    and "response err = Some r"
  shows "(status r = 404 \<or> data_error r = Some ''NOT_FOUND'' \<longrightarrow>
            res = Inr (Some 0) \<and> UNSCANNED_BASES st' = UNSCANNED_BASES st \<and> db st' = db st \<and>
            issued (trace st') = issued (trace st) @ [Post_collaborators (b ''id'')]) \<and>
         (status r = 403 \<and> data_error r \<noteq> Some ''NOT_FOUND'' \<longrightarrow>
            res = Inr (Some 0) \<and> UNSCANNED_BASES st' = UNSCANNED_BASES st @ [b ''id''] \<and>
            db st' = db st \<and>
            issued (trace st') = issued (trace st) @ [Post_collaborators (b ''id'')])"
  using assms(1) unfolding scanBase_post_rejected[where b = b, OF assms(2)]
  by (auto simp: catch_post_collaborators_def assms(3) logged_def issued_append issued_rwr)

theorem scanBase_grant_refused_witness:
  "fst (scanBase example_remote ''S1'' (base_row ''appGone'' (Some ''S0'')) example_state) = Inr (Some 0) \<and>
   UNSCANNED_BASES (snd (scanBase example_remote ''S1'' (base_row ''appGone'' (Some ''S0'')) example_state)) = [] \<and>
   db (snd (scanBase example_remote ''S1'' (base_row ''appGone'' (Some ''S0'')) example_state))
     = db example_state \<and>
   fst (scanBase example_remote ''S1'' (base_row ''appLocked'' (Some ''S0'')) example_state) = Inr (Some 0) \<and>
   UNSCANNED_BASES (snd (scanBase example_remote ''S1'' (base_row ''appLocked'' (Some ''S0'')) example_state))
     = [Some ''appLocked''] \<and>
   db (snd (scanBase example_remote ''S1'' (base_row ''appLocked'' (Some ''S0'')) example_state))
     = db example_state"
proof -
  let ?gone = "scanBase example_remote ''S1'' (base_row ''appGone'' (Some ''S0'')) example_state"
  let ?locked = "scanBase example_remote ''S1'' (base_row ''appLocked'' (Some ''S0'')) example_state"
  have gone: "?gone = (fst ?gone, snd ?gone)" and locked: "?locked = (fst ?locked, snd ?locked)"
    by simp_all
  have g: "post_collaborators example_remote (base_row ''appGone'' (Some ''S0'') ''id'')
             = Rejected (http_failure 404 (Some ''NOT_FOUND''))"
    and l: "post_collaborators example_remote (base_row ''appLocked'' (Some ''S0'') ''id'')
             = Rejected (http_failure 403 None)"
    by (simp_all add: example_remote_def base_row_def)
  have rg: "response (http_failure 404 (Some ''NOT_FOUND'')) = Some \<lparr>status = 404, data_error = Some ''NOT_FOUND''\<rparr>"
    and rl: "response (http_failure 403 None) = Some \<lparr>status = 403, data_error = None\<rparr>"
    by (simp_all add: http_failure_def)
  from scanBase_grant_refused[OF gone g rg] scanBase_grant_refused[OF locked l rl]
  show ?thesis by (simp add: example_state_def base_row_def)
qed

subsection \<open>The record rows after the scan of a base\<close>

lemma scanBase_data:
  assumes run: "scanBase env S b st = (res, st')"
  shows "tables (db st') ''data'' = tables (db st) ''data'' \<or>
         (\<exists>ts r3 st3. promise_map (scanTable env S (b ''id'')) ts (granted st (b ''id'')) = (r3, st3) \<and>
            tables (db st') ''data'' = tables (db st3) ''data'')"
proof (cases "post_collaborators env (b ''id'')")
  case (Rejected err)
  from run have "db st' = db st"
    unfolding scanBase_post_rejected[where b = b, OF Rejected]
    by (drule_tac catch_post_collaborators_db) (simp add: logged_def)
  then show ?thesis by simp
next
  case (Resolved u)
  show ?thesis
  proof (cases "get_tables env (b ''id'')")
    case (Rejected err)
    from run have "db st' = db st"
      unfolding scanBase_tables_rejected[where b = b, OF Resolved Rejected]
      by (drule_tac catch_get_tables_same) (simp add: logged_def)
    then show ?thesis by simp
  next
    case ts: (Resolved ts)
    obtain r3 st3 where pm:
      "promise_map (scanTable env S (b ''id'')) ts (granted st (b ''id'')) = (r3, st3)"
      by (cases "promise_map (scanTable env S (b ''id'')) ts (granted st (b ''id''))")
    have "tables (db st') ''data'' = tables (db st3) ''data''"
    proof (cases r3)
      case (Inl err)
      with Resolved ts pm run have "st' = st3\<lparr>UNSCANNED_BASES := UNSCANNED_BASES st3 @ [b ''id'']\<rparr>"
        by (simp add: scanBase_tables_failed)
      then show ?thesis by simp
    next
      case (Inr ns)
      show ?thesis
        using run unfolding scanBase_tables_done[where b = b, OF Resolved ts pm[unfolded Inr]]
        by (cases "reduce_sum ns"; cases "delete_collaborator env (b ''id'')")
           (auto simp: Let_def logged_def update_scan_data split: option.splits if_splits)
    qed
    with pm show ?thesis by blast
  qed
qed

section \<open>The run: selection and remote calls\<close>

lemma not_scanned_iff: "not_scanned S r \<longleftrightarrow> r ''scan_id'' \<noteq> Some S"
  by (cases "r ''scan_id''") (auto simp: not_scanned_def sql_or_def sql_ne_def sql_is_null_def)

lemma select_not_scanned_filter:
  "select_not_scanned S rows = filter (\<lambda>r. r ''scan_id'' \<noteq> Some S) rows"
  unfolding select_not_scanned_def by (rule filter_cong) (simp_all add: not_scanned_iff)

lemma catch_post_collaborators_trace:
  "catch_post_collaborators e i s = (r, s') \<Longrightarrow> trace s' = trace s"
  by (auto simp: catch_post_collaborators_def split: sum.splits if_splits)

lemma scanTables_issued:
  assumes "promise_map (scanTable env S i) ts st = (r, st')"
  shows "\<exists>calls. issued (trace st') = issued (trace st) @ calls \<and> (\<forall>c\<in>set calls. call_base c = i)"
proof (rule promise_map_invariant
        [where f = "scanTable env S i" and s = st and xs = ts and r = r
           and P = "\<lambda>s. \<exists>calls. issued (trace s) = issued (trace st) @ calls \<and>
                        (\<forall>c\<in>set calls. call_base c = i)"])
  show "\<exists>calls. issued (trace st) = issued (trace st) @ calls \<and> (\<forall>c\<in>set calls. call_base c = i)"
    by simp
  show "promise_map (scanTable env S i) ts st = (r, st')" by (rule assms)
next
  fix t s r1 s1
  assume step: "scanTable env S i t s = (r1, s1)"
    and "\<exists>calls. issued (trace s) = issued (trace st) @ calls \<and> (\<forall>c\<in>set calls. call_base c = i)"
  then obtain calls where c: "issued (trace s) = issued (trace st) @ calls"
    "\<forall>c\<in>set calls. call_base c = i" by blast
  from scanTable_issued[OF step] c
  have "issued (trace s1) = issued (trace st) @ (calls @ [Select_all i (t_name t)]) \<and>
        (\<forall>c\<in>set (calls @ [Select_all i (t_name t)]). call_base c = i)" by simp
  then show "\<exists>calls. issued (trace s1) = issued (trace st) @ calls \<and> (\<forall>c\<in>set calls. call_base c = i)"
    by blast
qed

lemma scanBase_issued:
  assumes run: "scanBase env S b st = (res, st')"
  shows "\<exists>calls. issued (trace st') = issued (trace st) @ Post_collaborators (b ''id'') # calls \<and>
           (\<forall>c\<in>set calls. call_base c = b ''id'')"
proof (cases "post_collaborators env (b ''id'')")
  case (Rejected err)
  from run have "trace st' = trace st @ Issued (Post_collaborators (b ''id'')) #
          fst (requestWithRetry (Rejected err :: unit promise) (b ''id'') None)"
    unfolding scanBase_post_rejected[where b = b, OF Rejected]
    by (drule_tac catch_post_collaborators_trace) (simp add: logged_def)
  then show ?thesis by (simp add: issued_append issued_rwr)
next
  case (Resolved u)
  show ?thesis
  proof (cases "get_tables env (b ''id'')")
    case (Rejected err)
    from run have "st' = logged (logged st [Issued (Post_collaborators (b ''id'')), Awaited (b ''id'')])
          (Issued (Get_tables (b ''id'')) #
             fst (requestWithRetry (Rejected err :: airtable_table list promise) (b ''id'') None))"
      unfolding scanBase_tables_rejected[where b = b, OF Resolved Rejected]
      by (drule_tac catch_get_tables_same) simp
    then have "issued (trace st') = issued (trace st) @ Post_collaborators (b ''id'') # [Get_tables (b ''id'')]"
      by (simp add: logged_def issued_append issued_rwr)
    then show ?thesis by auto
  next
    case ts: (Resolved ts)
    obtain r3 st3 where pm:
      "promise_map (scanTable env S (b ''id'')) ts (granted st (b ''id'')) = (r3, st3)"
      by (cases "promise_map (scanTable env S (b ''id'')) ts (granted st (b ''id''))")
    from scanTables_issued[OF pm] obtain calls where
      c: "issued (trace st3) = issued (trace st) @ Post_collaborators (b ''id'') #
            Get_tables (b ''id'') # calls" "\<forall>c\<in>set calls. call_base c = b ''id''"
      by (auto simp: granted_frame)
    have "issued (trace st') = issued (trace st3) \<or>
          issued (trace st') = issued (trace st3) @ [Delete_collaborator (b ''id'')]"
    proof (cases r3)
      case (Inl err)
      with Resolved ts pm run have "st' = st3\<lparr>UNSCANNED_BASES := UNSCANNED_BASES st3 @ [b ''id'']\<rparr>"
        by (simp add: scanBase_tables_failed)
      then show ?thesis by simp
    next
      case (Inr ns)
      show ?thesis
        using run unfolding scanBase_tables_done[where b = b, OF Resolved ts pm[unfolded Inr]]
        by (cases "reduce_sum ns"; cases "delete_collaborator env (b ''id'')")
           (auto simp: Let_def logged_def issued_append issued_rwr split: option.splits if_splits)
    qed
    then show ?thesis
    proof
      assume "issued (trace st') = issued (trace st3)"
      with c have "issued (trace st') = issued (trace st) @ Post_collaborators (b ''id'') #
            (Get_tables (b ''id'') # calls) \<and>
            (\<forall>c\<in>set (Get_tables (b ''id'') # calls). call_base c = b ''id'')" by simp
      then show ?thesis by blast
    next
      assume "issued (trace st') = issued (trace st3) @ [Delete_collaborator (b ''id'')]"
      with c have "issued (trace st') = issued (trace st) @ Post_collaborators (b ''id'') #
            (Get_tables (b ''id'') # calls @ [Delete_collaborator (b ''id'')]) \<and>
            (\<forall>c\<in>set (Get_tables (b ''id'') # calls @ [Delete_collaborator (b ''id'')]).
               call_base c = b ''id'')" by simp
      then show ?thesis by blast
    qed
  qed
qed

lemma scanBases_issued:
  "promise_map (scanBase env S) bs st = (r, st') \<Longrightarrow>
   \<exists>calls. issued (trace st') = issued (trace st) @ calls \<and>
     (\<forall>c\<in>set calls. call_base c \<in> (\<lambda>b. b ''id'') ` set bs) \<and>
     ((\<exists>rs. r = Inr rs) \<longrightarrow> (\<forall>b\<in>set bs. Post_collaborators (b ''id'') \<in> set calls))"
proof (induction bs arbitrary: st r st')
  case Nil
  then show ?case by simp
next
  case (Cons a bs)
  obtain r1 s1 where a: "scanBase env S a st = (r1, s1)" by (cases "scanBase env S a st")
  from scanBase_issued[OF a] obtain c1 where
    c1: "issued (trace s1) = issued (trace st) @ Post_collaborators (a ''id'') # c1"
        "\<forall>c\<in>set c1. call_base c = a ''id''" by blast
  show ?case
  proof (cases r1)
    case (Inl e)
    with a Cons.prems have "st' = s1" "r = Inl e" by simp_all
    with c1 have "issued (trace st') = issued (trace st) @ (Post_collaborators (a ''id'') # c1) \<and>
      (\<forall>c\<in>set (Post_collaborators (a ''id'') # c1). call_base c \<in> (\<lambda>b. b ''id'') ` set (a # bs)) \<and>
      ((\<exists>rs. r = Inr rs) \<longrightarrow> (\<forall>b\<in>set (a # bs). Post_collaborators (b ''id'') \<in> set (Post_collaborators (a ''id'') # c1)))"
      by simp
    then show ?thesis by blast
  next
    case (Inr v)
    obtain r2 s2 where rest: "promise_map (scanBase env S) bs s1 = (r2, s2)"
      by (cases "promise_map (scanBase env S) bs s1")
    with a Inr Cons.prems have st': "st' = s2" and r: "(\<exists>rs. r = Inr rs) = (\<exists>rs. r2 = Inr rs)"
      by (auto split: sum.splits)
    from Cons.IH[OF rest] obtain c2 where
      c2: "issued (trace s2) = issued (trace s1) @ c2"
          "\<forall>c\<in>set c2. call_base c \<in> (\<lambda>b. b ''id'') ` set bs"
          "(\<exists>rs. r2 = Inr rs) \<longrightarrow> (\<forall>b\<in>set bs. Post_collaborators (b ''id'') \<in> set c2)"
      by blast
    let ?calls = "Post_collaborators (a ''id'') # c1 @ c2"
    from c1 c2 st' r have "issued (trace st') = issued (trace st) @ ?calls \<and>
      (\<forall>c\<in>set ?calls. call_base c \<in> (\<lambda>b. b ''id'') ` set (a # bs)) \<and>
      ((\<exists>rs. r = Inr rs) \<longrightarrow> (\<forall>b\<in>set (a # bs). Post_collaborators (b ''id'') \<in> set ?calls))"
      by auto
    then show ?thesis by blast
  qed
qed

lemma run_cases:
  "promise_map (scanBase env S) (select_not_scanned S (tables (db st) ''bases'')) st = (r1, st1) \<Longrightarrow>
   run env S flag st =
     (case r1 of
        Inl e \<Rightarrow> (Inl e, st1)
      | Inr rs \<Rightarrow>
          if flag \<noteq> JS_boolean True then (Inr (), st1)
          else (Inr (), st1\<lparr>db := deleteData (deleteData (db st1) S ''bases'' ''id'') S
                                    ''data'' ''record_id''\<rparr>))"
  by (simp add: run_def Let_def split: sum.split)

lemma run_issued:
  assumes "run env S flag st = (res, st')"
  shows "\<exists>calls. issued (trace st') = issued (trace st) @ calls \<and>
     (\<forall>c\<in>set calls. call_base c \<in> (\<lambda>b. b ''id'') ` set (select_not_scanned S (tables (db st) ''bases''))) \<and>
     (res = Inr () \<longrightarrow>
        (\<forall>b\<in>set (select_not_scanned S (tables (db st) ''bases'')). Post_collaborators (b ''id'') \<in> set calls))"
proof -
  let ?bs = "select_not_scanned S (tables (db st) ''bases'')"
  obtain r1 st1 where pm: "promise_map (scanBase env S) ?bs st = (r1, st1)"
    by (cases "promise_map (scanBase env S) ?bs st")
  from assms have tr: "trace st' = trace st1" and res: "res = Inr () \<longrightarrow> (\<exists>rs. r1 = Inr rs)"
    unfolding run_cases[OF pm] by (auto split: sum.splits if_splits)
  from scanBases_issued[OF pm] tr res show ?thesis by auto
qed

text \<open>
  C2. The run with scan identifier \<open>S\<close> hands to the scan exactly the rows of \<open>bases\<close>
  whose scan_id is not \<open>S\<close> (NULL included). Every remote call of the run addresses a
  base of such a row; with the identifiers of \<open>bases\<close> distinct (the primary key), no
  call addresses a base whose row is tagged \<open>S\<close>. When the run returns without error,
  the grant call of every selected base has been sent.
\<close>

theorem run_scans_untagged_bases:
  assumes "run env S flag st = (res, st')"
    and "distinct (map (\<lambda>r. r ''id'') (tables (db st) ''bases''))"
  shows "select_not_scanned S (tables (db st) ''bases'') =
           filter (\<lambda>r. r ''scan_id'' \<noteq> Some S) (tables (db st) ''bases'') \<and>
         (\<exists>calls. issued (trace st') = issued (trace st) @ calls \<and>
            (\<forall>c\<in>set calls. \<exists>r\<in>set (tables (db st) ''bases'').
               r ''scan_id'' \<noteq> Some S \<and> call_base c = r ''id'') \<and>
            (\<forall>r\<in>set (tables (db st) ''bases''). r ''scan_id'' = Some S \<longrightarrow>
               (\<forall>c\<in>set calls. call_base c \<noteq> r ''id'')) \<and>
            (res = Inr () \<longrightarrow>
               (\<forall>r\<in>set (tables (db st) ''bases''). r ''scan_id'' \<noteq> Some S \<longrightarrow>
                  Post_collaborators (r ''id'') \<in> set calls)))"
proof -
  let ?rows = "tables (db st) ''bases''"
  from run_issued[OF assms(1)] obtain calls where
    tr: "issued (trace st') = issued (trace st) @ calls"
    and only: "\<forall>c\<in>set calls. call_base c \<in> (\<lambda>b. b ''id'') ` set (select_not_scanned S ?rows)"
    and all: "res = Inr () \<longrightarrow>
        (\<forall>b\<in>set (select_not_scanned S ?rows). Post_collaborators (b ''id'') \<in> set calls)"
    by blast
  have sel: "set (select_not_scanned S ?rows) = {r \<in> set ?rows. r ''scan_id'' \<noteq> Some S}"
    by (simp add: select_not_scanned_filter)
  have a: "\<forall>c\<in>set calls. \<exists>r\<in>set ?rows. r ''scan_id'' \<noteq> Some S \<and> call_base c = r ''id''"
    using only sel by auto
  have inj: "inj_on (\<lambda>r. r ''id'') (set ?rows)"
    using assms(2) by (simp add: distinct_map)
  have b: "\<forall>r\<in>set ?rows. r ''scan_id'' = Some S \<longrightarrow> (\<forall>c\<in>set calls. call_base c \<noteq> r ''id'')"
  proof (intro ballI impI)
    fix r c assume r: "r \<in> set ?rows" "r ''scan_id'' = Some S" and c: "c \<in> set calls"
    from a c obtain r' where r': "r' \<in> set ?rows" "r' ''scan_id'' \<noteq> Some S" "call_base c = r' ''id''"
      by blast
    show "call_base c \<noteq> r ''id''"
    proof
      assume "call_base c = r ''id''"
      with r' have "r' ''id'' = r ''id''" by simp
      with inj r'(1) r(1) have "r' = r" by (auto dest: inj_onD)
      with r(2) r'(2) show False by simp
    qed
  qed
  have c: "res = Inr () \<longrightarrow>
      (\<forall>r\<in>set ?rows. r ''scan_id'' \<noteq> Some S \<longrightarrow> Post_collaborators (r ''id'') \<in> set calls)"
    using all sel by auto
  from tr a b c show ?thesis
    by (auto simp: select_not_scanned_filter)
qed

theorem run_scans_untagged_bases_witness:
  "distinct (map (\<lambda>r. r ''id'') (tables (db example_state) ''bases'')) \<and>
   select_not_scanned ''S1'' (tables (db example_state) ''bases'') =
     [base_row ''appHalf'' (Some ''S0''), base_row ''appNew'' None] \<and>
   fst (run example_remote ''S1'' JS_undefined example_state) = Inr () \<and>
   Post_collaborators (Some ''appDone'')
     \<notin> set (issued (trace (snd (run example_remote ''S1'' JS_undefined example_state)))) \<and>
   Post_collaborators (Some ''appHalf'')
     \<in> set (issued (trace (snd (run example_remote ''S1'' JS_undefined example_state)))) \<and>
   Post_collaborators (Some ''appNew'')
     \<in> set (issued (trace (snd (run example_remote ''S1'' JS_undefined example_state))))"
proof -
  let ?run = "run example_remote ''S1'' JS_undefined example_state"
  have run: "?run = (fst ?run, snd ?run)" by simp
  have d: "distinct (map (\<lambda>r. r ''id'') (tables (db example_state) ''bases''))"
    by (simp add: example_defs)
  have ok: "fst ?run = Inr ()"
    by (simp add: run_def select_not_scanned_filter example_defs scan_defs)
  have rows: "tables (db example_state) ''bases'' =
      [base_row ''appDone'' (Some ''S1''), base_row ''appHalf'' (Some ''S0''), base_row ''appNew'' None]"
    by (simp add: example_state_def)
  from run_scans_untagged_bases[OF run d] ok
  show ?thesis
    unfolding rows by (auto simp: base_row_def example_state_def)
qed

section \<open>Failures that end the run\<close>

lemma promise_map_length:
  "promise_map f xs s = (Inr ys, s') \<Longrightarrow> length ys = length xs"
proof (induction xs arbitrary: s ys)
  case Nil
  then show ?case by simp
next
  case (Cons x xs)
  then show ?case
    by (auto split: prod.splits sum.splits)
qed

lemma promise_map_isl:
  assumes "\<And>x s. isl (fst (f x s)) = bad x"
  shows "isl (fst (promise_map f xs s)) = (\<exists>x\<in>set xs. bad x)"
proof (induction xs arbitrary: s)
  case Nil
  then show ?case by simp
next
  case (Cons x xs)
  obtain r1 s1 where f: "f x s = (r1, s1)" by (cases "f x s")
  with assms[of x s] have b: "bad x = isl r1" by simp
  obtain r2 s2 where pm: "promise_map f xs s1 = (r2, s2)" by (cases "promise_map f xs s1")
  with Cons.IH[of s1] have ih: "isl r2 = (\<exists>x\<in>set xs. bad x)" by simp
  show ?case
    using f b pm ih by (cases r1; cases r2) auto
qed

lemma scanTable_isl:
  "isl (fst (scanTable env S i t st)) = (\<not> resolved (select_all env i (t_name t)))"
  by (cases "select_all env i (t_name t)") (simp_all add: scanTable_resolved scanTable_rejected)

lemma scanTables_isl:
  "isl (fst (promise_map (scanTable env S i) ts st)) =
     (\<not> list_all (\<lambda>t. resolved (select_all env i (t_name t))) ts)"
  by (simp add: promise_map_isl[where bad = "\<lambda>t. \<not> resolved (select_all env i (t_name t))"]
        scanTable_isl list_all_iff)

lemma reduce_sum_isl: "isl (reduce_sum ns) = (ns = [])"
  by (cases ns) (simp_all add: reduce_sum_def)

lemma scanBase_isl: "isl (fst (scanBase env S b st)) = scan_escapes env (b ''id'')"
proof (cases "post_collaborators env (b ''id'')")
  case (Rejected err)
  show ?thesis
    unfolding scanBase_post_rejected[where b = b, OF Rejected]
    by (auto simp: catch_post_collaborators_def scan_escapes_def Rejected split: option.splits)
next
  case (Resolved u)
  show ?thesis
  proof (cases "get_tables env (b ''id'')")
    case (Rejected err)
    show ?thesis
      unfolding scanBase_tables_rejected[where b = b, OF Resolved Rejected]
      by (auto simp: catch_get_tables_def scan_escapes_def passed_on_def Resolved Rejected
            split: option.splits)
  next
    case ts: (Resolved ts)
    obtain r3 st3 where pm:
      "promise_map (scanTable env S (b ''id'')) ts (granted st (b ''id'')) = (r3, st3)"
      by (cases "promise_map (scanTable env S (b ''id'')) ts (granted st (b ''id''))")
    from scanTables_isl[of env S "b ''id''" ts "granted st (b ''id'')"] pm
    have all: "isl r3 = (\<not> list_all (\<lambda>t. resolved (select_all env (b ''id'') (t_name t))) ts)"
      by simp
    show ?thesis
    proof (cases r3)
      case (Inl err)
      with all show ?thesis
        unfolding scanBase_tables_failed[where b = b, OF Resolved ts pm[unfolded Inl]]
        by (simp add: scan_escapes_def Resolved ts)
    next
      case (Inr ns)
      from promise_map_length[OF pm[unfolded Inr]] have "(ns = []) = (ts = [])" by auto
      with all Inr show ?thesis
        unfolding scanBase_tables_done[where b = b, OF Resolved ts pm[unfolded Inr]]
        by (cases "reduce_sum ns"; cases "delete_collaborator env (b ''id'')")
           (auto simp: Let_def scan_escapes_def passed_on_def Resolved ts reduce_sum_def
              split: option.splits list.splits)
    qed
  qed
qed

lemma scanBases_isl:
  "isl (fst (promise_map (scanBase env S) bs st)) = (\<exists>b\<in>set bs. scan_escapes env (b ''id''))"
  by (rule promise_map_isl) (rule scanBase_isl)

text \<open>
  C5 (as stated, refuted). The claim says that no failure of a base's scan makes the run
  fail. Here the grant for \<open>appDown\<close> is answered with status 500: the first catch
  block rethrows it, nothing catches it around \<open>Promise.map\<close>, and \<open>run\<close> rejects
  with that error; the base is not in \<open>UNSCANNED_BASES\<close>.
\<close>

theorem run_aborted_counterexample:
  "fst (run example_remote ''S1'' (JS_boolean False) down_state)
     = Inl (Rejection (http_failure 500 None)) \<and>
   UNSCANNED_BASES (snd (run example_remote ''S1'' (JS_boolean False) down_state)) = [] \<and>
   issued (trace (snd (run example_remote ''S1'' (JS_boolean False) down_state)))
     = [Post_collaborators (Some ''appDown'')]"
  by (simp add: run_def select_not_scanned_filter down_state_def example_defs scan_defs)

text \<open>
  C5 (amended). A failure while reading a table of a base is contained to that base, as
  are a grant failure with 404, NOT_FOUND or 403, a table-list failure with 403 and a
  failure to remove the administrator with 403: none of them leaves the base's scan.
  Every other failure of these three calls (and an empty table list) is thrown by the
  base's scan, and the run fails exactly when the scan of one of the selected bases
  throws.
\<close>

theorem run_fails_iff_scan_escapes:
  "isl (fst (scanBase env S b st)) = scan_escapes env (b ''id'') \<and>
   isl (fst (run env S flag st)) =
     (\<exists>b\<in>set (select_not_scanned S (tables (db st) ''bases'')). scan_escapes env (b ''id''))"
proof -
  let ?bs = "select_not_scanned S (tables (db st) ''bases'')"
  obtain r1 st1 where pm: "promise_map (scanBase env S) ?bs st = (r1, st1)"
    by (cases "promise_map (scanBase env S) ?bs st")
  have "isl (fst (run env S flag st)) = isl r1"
    unfolding run_cases[OF pm] by (cases r1) simp_all
  also have "isl r1 = (\<exists>b\<in>set ?bs. scan_escapes env (b ''id''))"
    using scanBases_isl[of env S ?bs st] pm by simp
  finally show ?thesis by (simp add: scanBase_isl)
qed

theorem run_fails_iff_scan_escapes_witness:
  "\<not> scan_escapes example_remote (Some ''appHalf'') \<and>
   \<not> scan_escapes example_remote (Some ''appNew'') \<and>
   \<not> isl (fst (run example_remote ''S1'' JS_undefined example_state)) \<and>
   scan_escapes example_remote (Some ''appDown'') \<and>
   isl (fst (run example_remote ''S1'' JS_undefined down_state))"
proof -
  have half: "\<not> scan_escapes example_remote (Some ''appHalf'')"
    and new: "\<not> scan_escapes example_remote (Some ''appNew'')"
    and down: "scan_escapes example_remote (Some ''appDown'')"
    by (simp_all add: scan_escapes_def passed_on_def example_defs)
  from run_fails_iff_scan_escapes[of example_remote "''S1''" "base_row ''appNew'' None"
      example_state JS_undefined]
    run_fails_iff_scan_escapes[of example_remote "''S1''" "base_row ''appNew'' None"
      down_state JS_undefined]
    half new down
  show ?thesis
    by (simp add: select_not_scanned_filter example_state_def down_state_def base_row_def)
qed

section \<open>A run without deletion\<close>

lemma kept_or_rewritten_refl: "kept_or_rewritten S rows rows"
  by (simp add: kept_or_rewritten_def)

lemma kept_or_rewritten_write:
  assumes "kept_or_rewritten S old (tables d ''data'')"
  shows "kept_or_rewritten S old (tables (write_record S i t d rec) ''data'')"
  unfolding kept_or_rewritten_def
proof
  fix r assume "r \<in> set old"
  with assms consider "r \<in> set (tables d ''data'')"
    | r' where "r' \<in> set (tables d ''data'')" "r' ''record_id'' = r ''record_id''"
        "r' ''scan_id'' = Some S"
    unfolding kept_or_rewritten_def by blast
  then show "r \<in> set (tables (write_record S i t d rec) ''data'') \<or>
      (\<exists>r'\<in>set (tables (write_record S i t d rec) ''data'').
         r' ''record_id'' = r ''record_id'' \<and> r' ''scan_id'' = Some S)"
  proof cases
    case 1
    then show ?thesis
      by (cases "r ''record_id'' = Some (rec_id rec)") (auto simp: write_record_rows)
  next
    case 2
    then show ?thesis
      by (cases "r ''record_id'' = Some (rec_id rec)") (auto simp: write_record_rows)
  qed
qed

lemma kept_or_rewritten_foldl:
  "kept_or_rewritten S old (tables d ''data'') \<Longrightarrow>
   kept_or_rewritten S old (tables (foldl (write_record S i t) d recs) ''data'')"
  by (induction recs arbitrary: d) (simp_all add: kept_or_rewritten_write)

lemma kept_or_rewritten_scanTable:
  "scanTable env S i t st = (r, st') \<Longrightarrow> kept_or_rewritten S old (tables (db st) ''data'') \<Longrightarrow>
   kept_or_rewritten S old (tables (db st') ''data'')"
  by (cases "select_all env i (t_name t)")
     (auto simp: scanTable_resolved scanTable_rejected logged_def intro!: kept_or_rewritten_foldl)

lemma kept_or_rewritten_scanTables:
  assumes "promise_map (scanTable env S i) ts st = (r, st')"
    and "kept_or_rewritten S old (tables (db st) ''data'')"
  shows "kept_or_rewritten S old (tables (db st') ''data'')"
  by (rule promise_map_invariant
        [where f = "scanTable env S i" and s = st and xs = ts and r = r
           and P = "\<lambda>s. kept_or_rewritten S old (tables (db s) ''data'')"])
     (use assms in \<open>auto dest: kept_or_rewritten_scanTable\<close>)

lemma kept_or_rewritten_scanBase:
  assumes "scanBase env S b st = (res, st')"
    and "kept_or_rewritten S old (tables (db st) ''data'')"
  shows "kept_or_rewritten S old (tables (db st') ''data'')"
proof -
  from scanBase_data[OF assms(1)] show ?thesis
  proof
    assume "tables (db st') ''data'' = tables (db st) ''data''"
    with assms(2) show ?thesis by simp
  next
    assume "\<exists>ts r3 st3. promise_map (scanTable env S (b ''id'')) ts (granted st (b ''id'')) = (r3, st3) \<and>
            tables (db st') ''data'' = tables (db st3) ''data''"
    then obtain ts r3 st3 where
      pm: "promise_map (scanTable env S (b ''id'')) ts (granted st (b ''id'')) = (r3, st3)"
      and eq: "tables (db st') ''data'' = tables (db st3) ''data''" by blast
    from assms(2) have "kept_or_rewritten S old (tables (db (granted st (b ''id''))) ''data'')"
      by (simp add: granted_frame)
    with pm have "kept_or_rewritten S old (tables (db st3) ''data'')"
      by (rule kept_or_rewritten_scanTables)
    with eq show ?thesis by simp
  qed
qed

lemma kept_or_rewritten_scanBases:
  assumes "promise_map (scanBase env S) bs st = (r, st')"
    and "kept_or_rewritten S old (tables (db st) ''data'')"
  shows "kept_or_rewritten S old (tables (db st') ''data'')"
  by (rule promise_map_invariant
        [where f = "scanBase env S" and s = st and xs = bs and r = r
           and P = "\<lambda>s. kept_or_rewritten S old (tables (db s) ''data'')"])
     (use assms in \<open>auto dest: kept_or_rewritten_scanBase\<close>)

lemma update_scan_outside:
  "map (\<lambda>r. r(''scan_time'' := None, ''scan_id'' := None)) (tables (update_scan d now S i) ''bases'')
     = map (\<lambda>r. r(''scan_time'' := None, ''scan_id'' := None)) (tables d ''bases'')"
  by (simp add: update_scan_bases)

lemma scanBase_outside:
  assumes "scanBase env S b st = (res, st')"
  shows "map (\<lambda>r. r(''scan_time'' := None, ''scan_id'' := None)) (tables (db st') ''bases'')
     = map (\<lambda>r. r(''scan_time'' := None, ''scan_id'' := None)) (tables (db st) ''bases'')"
  using scanBase_bases[OF assms] by (auto simp: update_scan_outside)

lemma scanBases_outside:
  assumes "promise_map (scanBase env S) bs st = (r, st')"
  shows "map (\<lambda>r. r(''scan_time'' := None, ''scan_id'' := None)) (tables (db st') ''bases'')
     = map (\<lambda>r. r(''scan_time'' := None, ''scan_id'' := None)) (tables (db st) ''bases'')"
  by (rule promise_map_invariant
        [where f = "scanBase env S" and s = st and xs = bs and r = r
           and P = "\<lambda>s. map (\<lambda>r. r(''scan_time'' := None, ''scan_id'' := None)) (tables (db s) ''bases'')
     = map (\<lambda>r. r(''scan_time'' := None, ''scan_id'' := None)) (tables (db st) ''bases'')"])
     (use assms in \<open>auto dest: scanBase_outside\<close>)

text \<open>
  C8. When the deletion flag is anything but \<open>true\<close>, the run ends where the scan of
  the selected bases ends: deleteData is not called. No row of \<open>bases\<close> is removed or
  added, and outside the columns scan_time and scan_id the table is as it was; every
  row of \<open>data\<close>, whatever its tag, is still there, or was overwritten by this scan's
  own write of the same record.
\<close>

theorem run_without_delete_flag:
  assumes "flag \<noteq> JS_boolean True"
    and "run env S flag st = (res, st')"
  shows "st' = snd (promise_map (scanBase env S)
                     (select_not_scanned S (tables (db st) ''bases'')) st) \<and>
         map (\<lambda>r. r(''scan_time'' := None, ''scan_id'' := None)) (tables (db st') ''bases'')
           = map (\<lambda>r. r(''scan_time'' := None, ''scan_id'' := None)) (tables (db st) ''bases'') \<and>
         kept_or_rewritten S (tables (db st) ''data'') (tables (db st') ''data'')"
proof -
  let ?bs = "select_not_scanned S (tables (db st) ''bases'')"
  obtain r1 st1 where pm: "promise_map (scanBase env S) ?bs st = (r1, st1)"
    by (cases "promise_map (scanBase env S) ?bs st")
  from assms have st': "st' = st1"
    unfolding run_cases[OF pm] by (cases r1) simp_all
  from scanBases_outside[OF pm] kept_or_rewritten_scanBases[OF pm kept_or_rewritten_refl] pm st'
  show ?thesis by simp
qed

theorem run_without_delete_flag_witness:
  "JS_undefined \<noteq> JS_boolean True \<and>
   map (\<lambda>r. r ''id'') (tables (db (snd (run example_remote ''S1'' JS_undefined (stale_state True)))) ''bases'')
     = [Some ''appDone'', Some ''appGone'', Some ''appLocked''] \<and>
   kept_or_rewritten ''S1'' (tables (db (stale_state True)) ''data'')
     (tables (db (snd (run example_remote ''S1'' JS_undefined (stale_state True)))) ''data'')"
proof -
  let ?run = "run example_remote ''S1'' JS_undefined (stale_state True)"
  have run: "?run = (fst ?run, snd ?run)" by simp
  have flag: "JS_undefined \<noteq> JS_boolean True" by simp
  note r = run_without_delete_flag[OF flag run]
  note outside = r[THEN conjunct2, THEN conjunct1]
  note data = r[THEN conjunct2, THEN conjunct2]
  have "map (\<lambda>r. r ''id'') (tables (db (snd ?run)) ''bases'')
     = map (\<lambda>r. r ''id'')
         (map (\<lambda>r. r(''scan_time'' := None, ''scan_id'' := None)) (tables (db (snd ?run)) ''bases''))"
    by (simp add: comp_def)
  also have "\<dots> = map (\<lambda>r. r ''id'')
         (map (\<lambda>r. r(''scan_time'' := None, ''scan_id'' := None))
            (tables (db (stale_state True)) ''bases''))"
    by (simp only: outside)
  also have "\<dots> = [Some ''appDone'', Some ''appGone'', Some ''appLocked'']"
    by (simp add: stale_state_def base_row_def)
  finally show ?thesis using data flag by simp
qed

section \<open>Reconciliation\<close>

lemma sql_in_true: "sql_in a bs = Some True \<longleftrightarrow> a \<noteq> None \<and> a \<in> set bs"
  by (cases a) (auto simp: sql_in_def)

lemma keyed_filter: "keyed pf rows \<Longrightarrow> keyed pf (filter P rows)"
  by (auto simp: keyed_def distinct_map_filter)

lemma keyed_hit:
  assumes "keyed pf rows" and "r \<in> set rows"
  shows "(r pf \<noteq> None \<and> r pf \<in> set (map (\<lambda>b. b pf) (filter P rows))) \<longleftrightarrow> P r"
proof -
  from assms(1) have inj: "inj_on (\<lambda>r. r pf) (set rows)"
    by (simp add: keyed_def distinct_map)
  from assms(2) have "r pf \<in> set (map (\<lambda>r. r pf) rows)" by simp
  moreover from assms(1) have "None \<notin> set (map (\<lambda>r. r pf) rows)" by (simp add: keyed_def)
  ultimately have nn: "r pf \<noteq> None" by metis
  show ?thesis
  proof
    assume "r pf \<noteq> None \<and> r pf \<in> set (map (\<lambda>b. b pf) (filter P rows))"
    then obtain b where b: "b \<in> set rows" "P b" "b pf = r pf" by auto
    with inj assms(2) have "b = r" by (auto dest: inj_onD)
    with b show "P r" by simp
  next
    assume "P r"
    with assms(2) nn show "r pf \<noteq> None \<and> r pf \<in> set (map (\<lambda>b. b pf) (filter P rows))"
      by auto
  qed
qed

lemma sql_delete_in_table:
  "tables (sql_delete_in d t pf ids) t = filter (\<lambda>r. sql_in (r pf) ids \<noteq> Some True) (tables d t)"
  by (simp add: sql_delete_in_def Let_def cascade_def)

lemma deleteData_table:
  assumes "keyed pf (tables d t)"
  shows "tables (deleteData d S t pf) t = filter (\<lambda>r. r ''scan_id'' = Some S) (tables d t)"
proof -
  have "tables (deleteData d S t pf) t =
      filter (\<lambda>r. \<not> (r pf \<noteq> None \<and>
                r pf \<in> set (map (\<lambda>b. b pf) (filter (\<lambda>r. r ''scan_id'' \<noteq> Some S) (tables d t)))))
        (tables d t)"
    by (simp add: deleteData_def Let_def sql_delete_in_table sql_in_true select_not_scanned_filter)
  also have "\<dots> = filter (\<lambda>r. r ''scan_id'' = Some S) (tables d t)"
  proof (rule filter_cong[OF refl])
    fix r assume "r \<in> set (tables d t)"
    from keyed_hit[OF assms this, of "\<lambda>r. r ''scan_id'' \<noteq> Some S"]
    show "(\<not> (r pf \<noteq> None \<and>
                r pf \<in> set (map (\<lambda>b. b pf) (filter (\<lambda>r. r ''scan_id'' \<noteq> Some S) (tables d t)))))
          = (r ''scan_id'' = Some S)"
      by simp
  qed
  finally show ?thesis .
qed

lemma deleteData_fk: "foreign_keys (deleteData d S t pf) = foreign_keys d"
  by (simp add: deleteData_def sql_delete_in_def Let_def cascade_def)

lemma deleteData_data_bases:
  "tables (deleteData d S ''data'' pf) ''bases'' = tables d ''bases''"
  by (simp add: deleteData_def sql_delete_in_def Let_def)

lemma deleteData_bases_data:
  assumes "keyed ''id'' (tables d ''bases'')"
  shows "tables (deleteData d S ''bases'' ''id'') ''data'' =
     filter (\<lambda>r. foreign_keys d \<longrightarrow>
               \<not> (\<exists>b\<in>set (tables d ''bases''). b ''scan_id'' \<noteq> Some S \<and> r ''base_id'' = b ''id''))
       (tables d ''data'')"
proof -
  let ?stale = "filter (\<lambda>r. r ''scan_id'' \<noteq> Some S) (tables d ''bases'')"
  have hit: "filter (\<lambda>r. sql_in (r ''id'') (map (\<lambda>b. b ''id'') ?stale) = Some True) (tables d ''bases'')
      = ?stale"
  proof (rule filter_cong[OF refl])
    fix r assume "r \<in> set (tables d ''bases'')"
    from keyed_hit[OF assms this, of "\<lambda>r. r ''scan_id'' \<noteq> Some S"]
    show "(sql_in (r ''id'') (map (\<lambda>b. b ''id'') ?stale) = Some True) = (r ''scan_id'' \<noteq> Some S)"
      by (simp add: sql_in_true)
  qed
  have nn: "b ''id'' \<noteq> None" if "b \<in> set (tables d ''bases'')" for b
  proof -
    from that have "b ''id'' \<in> set (map (\<lambda>r. r ''id'') (tables d ''bases''))" by simp
    moreover from assms have "None \<notin> set (map (\<lambda>r. r ''id'') (tables d ''bases''))"
      by (simp add: keyed_def)
    ultimately show ?thesis by metis
  qed
  show ?thesis
  proof (cases "foreign_keys d")
    case False
    then show ?thesis
      by (simp add: deleteData_def sql_delete_in_def Let_def cascade_def)
  next
    case True
    have "tables (deleteData d S ''bases'' ''id'') ''data'' =
        filter (\<lambda>r. sql_in (r ''base_id'') (map (\<lambda>b. b ''id'') ?stale) \<noteq> Some True) (tables d ''data'')"
      using True
      by (simp add: deleteData_def sql_delete_in_def Let_def cascade_def select_not_scanned_filter hit)
    also have "\<dots> = filter (\<lambda>r. \<not> (\<exists>b\<in>set (tables d ''bases''). b ''scan_id'' \<noteq> Some S \<and>
          r ''base_id'' = b ''id'')) (tables d ''data'')"
    proof (rule filter_cong[OF refl])
      fix r assume "r \<in> set (tables d ''data'')"
      show "(sql_in (r ''base_id'') (map (\<lambda>b. b ''id'') ?stale) \<noteq> Some True) =
          (\<not> (\<exists>b\<in>set (tables d ''bases''). b ''scan_id'' \<noteq> Some S \<and> r ''base_id'' = b ''id''))"
        unfolding sql_in_true using nn by (auto simp: image_iff) (metis option.distinct(1))+
    qed
    finally show ?thesis using True by simp
  qed
qed

lemma keyed_write_record:
  assumes "keyed ''record_id'' (tables d ''data'')"
  shows "keyed ''record_id'' (tables (write_record S i t d rec) ''data'')"
proof -
  from assms have "distinct (map (\<lambda>r. r ''record_id'')
      (filter (\<lambda>r. r ''record_id'' \<noteq> Some (rec_id rec)) (tables d ''data'')))"
    by (simp add: keyed_def distinct_map_filter)
  with assms show ?thesis
    by (auto simp: keyed_def write_record_rows)
qed

lemma keyed_foldl_write_record:
  "keyed ''record_id'' (tables d ''data'') \<Longrightarrow>
   keyed ''record_id'' (tables (foldl (write_record S i t) d recs) ''data'')"
  by (induction recs arbitrary: d) (simp_all add: keyed_write_record)

lemma keyed_scanTable:
  "scanTable env S i t st = (r, st') \<Longrightarrow> keyed ''record_id'' (tables (db st) ''data'') \<Longrightarrow>
   keyed ''record_id'' (tables (db st') ''data'')"
  by (cases "select_all env i (t_name t)")
     (auto simp: scanTable_resolved scanTable_rejected logged_def intro!: keyed_foldl_write_record)

lemma keyed_scanTables:
  assumes "promise_map (scanTable env S i) ts st = (r, st')"
    and "keyed ''record_id'' (tables (db st) ''data'')"
  shows "keyed ''record_id'' (tables (db st') ''data'')"
  by (rule promise_map_invariant
        [where f = "scanTable env S i" and s = st and xs = ts and r = r
           and P = "\<lambda>s. keyed ''record_id'' (tables (db s) ''data'')"])
     (use assms in \<open>auto dest: keyed_scanTable\<close>)

lemma keyed_scanBase:
  assumes "scanBase env S b st = (res, st')"
    and "keyed ''record_id'' (tables (db st) ''data'')"
  shows "keyed ''record_id'' (tables (db st') ''data'')"
proof -
  from scanBase_data[OF assms(1)] show ?thesis
  proof
    assume "tables (db st') ''data'' = tables (db st) ''data''"
    with assms(2) show ?thesis by simp
  next
    assume "\<exists>ts r3 st3. promise_map (scanTable env S (b ''id'')) ts (granted st (b ''id'')) = (r3, st3) \<and>
            tables (db st') ''data'' = tables (db st3) ''data''"
    then obtain ts r3 st3 where
      pm: "promise_map (scanTable env S (b ''id'')) ts (granted st (b ''id'')) = (r3, st3)"
      and eq: "tables (db st') ''data'' = tables (db st3) ''data''" by blast
    from assms(2) have "keyed ''record_id'' (tables (db (granted st (b ''id''))) ''data'')"
      by (simp add: granted_frame)
    with pm have "keyed ''record_id'' (tables (db st3) ''data'')"
      by (rule keyed_scanTables)
    with eq show ?thesis by simp
  qed
qed

lemma keyed_scanBases:
  assumes "promise_map (scanBase env S) bs st = (r, st')"
    and "keyed ''record_id'' (tables (db st) ''data'')"
  shows "keyed ''record_id'' (tables (db st') ''data'')"
  by (rule promise_map_invariant
        [where f = "scanBase env S" and s = st and xs = bs and r = r
           and P = "\<lambda>s. keyed ''record_id'' (tables (db s) ''data'')"])
     (use assms in \<open>auto dest: keyed_scanBase\<close>)

lemma keyed_bases_scanBases:
  assumes "promise_map (scanBase env S) bs st = (r, st')"
    and "keyed ''id'' (tables (db st) ''bases'')"
  shows "keyed ''id'' (tables (db st') ''bases'')"
proof -
  have ids: "map (\<lambda>r. r ''id'') rows =
      map (\<lambda>r. r ''id'') (map (\<lambda>r. r(''scan_time'' := None, ''scan_id'' := None)) rows)"
    for rows :: "row list"
    by (simp add: comp_def)
  have "map (\<lambda>r. r ''id'') (tables (db st') ''bases'') = map (\<lambda>r. r ''id'') (tables (db st) ''bases'')"
    by (subst ids, subst (2) ids) (simp only: scanBases_outside[OF assms(1)])
  with assms(2) show ?thesis by (simp add: keyed_def)
qed

text \<open>
  deleteData, on a table whose identity column is a key, removes exactly the rows whose
  scan_id is not the current identifier (NULL included) and keeps the rows that carry
  it. A run asked to delete, once the scan is over, calls it on \<open>bases\<close> and then on
  \<open>data\<close>: what is left of \<open>bases\<close> are the rows tagged \<open>S\<close>, and what is left of
  \<open>data\<close> are the rows tagged \<open>S\<close> that, where the store enforces the declared
  foreign key, do not belong to a removed base.
\<close>

lemma run_reconciles:
  assumes "run env S (JS_boolean True) st = (Inr (), st')"
    and "keyed ''id'' (tables (db st) ''bases'')"
    and "keyed ''record_id'' (tables (db st) ''data'')"
    and "st1 = snd (promise_map (scanBase env S) (select_not_scanned S (tables (db st) ''bases'')) st)"
  shows "(\<forall>d t pf. keyed pf (tables d t) \<longrightarrow>
            tables (deleteData d S t pf) t = filter (\<lambda>r. r ''scan_id'' = Some S) (tables d t)) \<and>
         db st' = deleteData (deleteData (db st1) S ''bases'' ''id'') S ''data'' ''record_id'' \<and>
         tables (db st') ''bases'' = filter (\<lambda>r. r ''scan_id'' = Some S) (tables (db st1) ''bases'') \<and>
         tables (db st') ''data'' =
           filter (\<lambda>r. r ''scan_id'' = Some S \<and>
                     (foreign_keys (db st1) \<longrightarrow>
                        \<not> (\<exists>b\<in>set (tables (db st1) ''bases'').
                             b ''scan_id'' \<noteq> Some S \<and> r ''base_id'' = b ''id'')))
             (tables (db st1) ''data'')"
proof -
  let ?bs = "select_not_scanned S (tables (db st) ''bases'')"
  obtain r1 s1 where pm: "promise_map (scanBase env S) ?bs st = (r1, s1)"
    by (cases "promise_map (scanBase env S) ?bs st")
  with assms(4) have s1: "s1 = st1" by simp
  from assms(1) have db: "db st' = deleteData (deleteData (db st1) S ''bases'' ''id'') S ''data'' ''record_id''"
    unfolding run_cases[OF pm] s1 by (cases r1) auto
  have kb: "keyed ''id'' (tables (db st1) ''bases'')"
    using keyed_bases_scanBases[OF pm assms(2)] s1 by simp
  have kd: "keyed ''record_id'' (tables (db st1) ''data'')"
    using keyed_scanBases[OF pm assms(3)] s1 by simp
  let ?d1 = "deleteData (db st1) S ''bases'' ''id''"
  have d1: "tables ?d1 ''data'' =
     filter (\<lambda>r. foreign_keys (db st1) \<longrightarrow>
               \<not> (\<exists>b\<in>set (tables (db st1) ''bases''). b ''scan_id'' \<noteq> Some S \<and> r ''base_id'' = b ''id''))
       (tables (db st1) ''data'')"
    by (rule deleteData_bases_data[OF kb])
  then have kd1: "keyed ''record_id'' (tables ?d1 ''data'')"
    using kd by (simp add: keyed_filter)
  have bases: "tables (db st') ''bases'' = filter (\<lambda>r. r ''scan_id'' = Some S) (tables (db st1) ''bases'')"
    unfolding db by (simp add: deleteData_data_bases deleteData_table[OF kb])
  have data: "tables (db st') ''data'' =
      filter (\<lambda>r. r ''scan_id'' = Some S) (tables ?d1 ''data'')"
    unfolding db by (rule deleteData_table[OF kd1])
  have "tables (db st') ''data'' =
           filter (\<lambda>r. r ''scan_id'' = Some S \<and>
                     (foreign_keys (db st1) \<longrightarrow>
                        \<not> (\<exists>b\<in>set (tables (db st1) ''bases'').
                             b ''scan_id'' \<noteq> Some S \<and> r ''base_id'' = b ''id'')))
             (tables (db st1) ''data'')"
    unfolding data d1 by (simp add: conj_commute)
  with db bases show ?thesis
    by (simp add: deleteData_table)
qed

lemma stale_state_selected:
  "select_not_scanned ''S1'' (tables (db (stale_state fk)) ''bases'') =
     [base_row ''appGone'' (Some ''S0''), base_row ''appLocked'' None]"
  by (simp add: select_not_scanned_filter stale_state_def base_row_def)

lemma scanBase_appGone:
  "scanBase example_remote ''S1'' (base_row ''appGone'' (Some ''S0'')) st =
     (Inr (Some 0),
      st\<lparr>trace := trace st @ [Issued (Post_collaborators (Some ''appGone'')),
                                Awaited (Some ''appGone'')]\<rparr>)"
  by (simp add: example_defs scan_defs)

lemma scanBase_appLocked:
  "scanBase example_remote ''S1'' (base_row ''appLocked'' None) st =
     (Inr (Some 0),
      st\<lparr>trace := trace st @ [Issued (Post_collaborators (Some ''appLocked'')),
                                Awaited (Some ''appLocked'')],
         UNSCANNED_BASES := UNSCANNED_BASES st @ [Some ''appLocked'']\<rparr>)"
  by (simp add: example_defs scan_defs)

lemma stale_state_scanned:
  "db (snd (promise_map (scanBase example_remote ''S1'')
         (select_not_scanned ''S1'' (tables (db (stale_state fk)) ''bases'')) (stale_state fk)))
     = db (stale_state fk) \<and>
   fst (promise_map (scanBase example_remote ''S1'')
         (select_not_scanned ''S1'' (tables (db (stale_state fk)) ''bases'')) (stale_state fk))
     = Inr [Some 0, Some 0]"
  by (simp add: stale_state_selected scanBase_appGone scanBase_appLocked)

text \<open>The store of three bases, one tagged \<open>S1\<close>, one with an older tag, one
  untagged, reconciled with the foreign key enforced: the tagged base and its record
  are what is left.\<close>

lemma run_reconciles_enforced:
  "keyed ''id'' (tables (db (stale_state True)) ''bases'') \<and>
   keyed ''record_id'' (tables (db (stale_state True)) ''data'') \<and>
   fst (run example_remote ''S1'' (JS_boolean True) (stale_state True)) = Inr () \<and>
   tables (db (snd (run example_remote ''S1'' (JS_boolean True) (stale_state True)))) ''bases''
     = [base_row ''appDone'' (Some ''S1'')] \<and>
   tables (db (snd (run example_remote ''S1'' (JS_boolean True) (stale_state True)))) ''data''
     = [data_row ''appDone'' ''recA'' (Some ''S1'')]"
proof -
  let ?run = "run example_remote ''S1'' (JS_boolean True) (stale_state True)"
  have kb: "keyed ''id'' (tables (db (stale_state True)) ''bases'')"
    and kd: "keyed ''record_id'' (tables (db (stale_state True)) ''data'')"
    by (simp_all add: keyed_def stale_state_def base_row_def data_row_def)
  obtain r1 s1 where pm: "promise_map (scanBase example_remote ''S1'')
      (select_not_scanned ''S1'' (tables (db (stale_state True)) ''bases'')) (stale_state True) = (r1, s1)"
    by (cases "promise_map (scanBase example_remote ''S1'')
      (select_not_scanned ''S1'' (tables (db (stale_state True)) ''bases'')) (stale_state True)")
  with stale_state_scanned[of True] have "r1 = Inr [Some 0, Some 0]" by simp
  then have ok: "fst ?run = Inr ()"
    unfolding run_cases[OF pm] by simp
  have run: "?run = (Inr (), snd ?run)"
    by (rule prod_eqI) (simp_all add: ok)
  note all = run_reconciles[OF run kb kd refl, unfolded stale_state_scanned[THEN conjunct1]]
  note r = all[THEN conjunct2, THEN conjunct2]
  from r have "tables (db (snd ?run)) ''bases'' = [base_row ''appDone'' (Some ''S1'')]"
    by (simp add: stale_state_def base_row_def)
  moreover from r have "tables (db (snd ?run)) ''data'' = [data_row ''appDone'' ''recA'' (Some ''S1'')]"
    by (simp add: stale_state_def base_row_def data_row_def)
  ultimately show ?thesis using kb kd ok by simp
qed

text \<open>The same store with the foreign key not enforced: the row \<open>recD\<close>, which
  carries the current tag, outlives its base \<open>appGone\<close>.\<close>

lemma run_reconciles_unenforced:
  "tables (db (snd (run example_remote ''S1'' (JS_boolean True) (stale_state False)))) ''bases''
     = [base_row ''appDone'' (Some ''S1'')] \<and>
   tables (db (snd (run example_remote ''S1'' (JS_boolean True) (stale_state False)))) ''data''
     = [data_row ''appDone'' ''recA'' (Some ''S1''), data_row ''appGone'' ''recD'' (Some ''S1'')]"
proof -
  let ?run = "run example_remote ''S1'' (JS_boolean True) (stale_state False)"
  have kb: "keyed ''id'' (tables (db (stale_state False)) ''bases'')"
    and kd: "keyed ''record_id'' (tables (db (stale_state False)) ''data'')"
    by (simp_all add: keyed_def stale_state_def base_row_def data_row_def)
  obtain r1 s1 where pm: "promise_map (scanBase example_remote ''S1'')
      (select_not_scanned ''S1'' (tables (db (stale_state False)) ''bases'')) (stale_state False) = (r1, s1)"
    by (cases "promise_map (scanBase example_remote ''S1'')
      (select_not_scanned ''S1'' (tables (db (stale_state False)) ''bases'')) (stale_state False)")
  with stale_state_scanned[of False] have "r1 = Inr [Some 0, Some 0]" by simp
  then have ok: "fst ?run = Inr ()"
    unfolding run_cases[OF pm] by simp
  have run: "?run = (Inr (), snd ?run)"
    by (rule prod_eqI) (simp_all add: ok)
  note all = run_reconciles[OF run kb kd refl, unfolded stale_state_scanned[THEN conjunct1]]
  note r = all[THEN conjunct2, THEN conjunct2]
  from r have "tables (db (snd ?run)) ''bases'' = [base_row ''appDone'' (Some ''S1'')]"
    by (simp add: stale_state_def base_row_def)
  moreover from r have "tables (db (snd ?run)) ''data'' =
      [data_row ''appDone'' ''recA'' (Some ''S1''), data_row ''appGone'' ''recD'' (Some ''S1'')]"
    by (simp add: stale_state_def base_row_def data_row_def)
  ultimately show ?thesis by simp
qed

subsection \<open>One run that scans, fails on a table, and deletes\<close>

lemma scanBase_appHalf:
  "scanBase example_remote ''S1'' (base_row ''appHalf'' (Some ''S0'')) st =
     (Inr None,
      st\<lparr>trace := trace st @
            [Issued (Post_collaborators (Some ''appHalf'')), Awaited (Some ''appHalf''),
             Issued (Get_tables (Some ''appHalf'')), Awaited (Some ''appHalf''),
             Issued (Select_all (Some ''appHalf'') ''Orders''), Awaited (Some ''tblOrders''),
             Issued (Select_all (Some ''appHalf'') ''Clients'')] @
            concat (replicate 5 [Awaited (Some ''tblClients''), Slept 10000]) @
            [Awaited (Some ''tblClients'')],
         db := write_record ''S1'' (Some ''appHalf'') \<lparr>t_id = ''tblOrders'', t_name = ''Orders''\<rparr>
                 (db st)
                 \<lparr>rec_id = ''recOrders'', rec_fields = ''{}'',
                    rec_createdTime = ''2021-02-01T10:00:00.000Z''\<rparr>,
         UNSCANNED_BASES := UNSCANNED_BASES st @ [Some ''appHalf'']\<rparr>)"
  by (simp add: scanBase_def scanTable_def logged_def Let_def rwr_resolved rwr_timeout
        example_remote_def base_row_def timeout_failure_def)

lemma half_state_selected:
  "select_not_scanned ''S1'' (tables (db (half_state fk)) ''bases'') =
     [base_row ''appHalf'' (Some ''S0'')]"
  by (simp add: select_not_scanned_filter half_state_def base_row_def)

lemma half_state_scanned:
  "fst (promise_map (scanBase example_remote ''S1'')
         (select_not_scanned ''S1'' (tables (db (half_state fk)) ''bases'')) (half_state fk))
     = Inr [None] \<and>
   db (snd (promise_map (scanBase example_remote ''S1'')
         (select_not_scanned ''S1'' (tables (db (half_state fk)) ''bases'')) (half_state fk)))
     = write_record ''S1'' (Some ''appHalf'') \<lparr>t_id = ''tblOrders'', t_name = ''Orders''\<rparr>
         (db (half_state fk))
         \<lparr>rec_id = ''recOrders'', rec_fields = ''{}'',
            rec_createdTime = ''2021-02-01T10:00:00.000Z''\<rparr>"
  by (simp add: half_state_selected scanBase_appHalf)

lemma half_state_reconciled:
  "fst (run example_remote ''S1'' (JS_boolean True) (half_state fk)) = Inr () \<and>
   tables (db (snd (run example_remote ''S1'' (JS_boolean True) (half_state fk)))) ''bases'' = [] \<and>
   map (\<lambda>r. (r ''base_id'', r ''record_id'', r ''scan_id''))
     (tables (db (snd (run example_remote ''S1'' (JS_boolean True) (half_state fk)))) ''data'')
     = (if fk then [] else [(Some ''appHalf'', Some ''recOrders'', Some ''S1'')])"
proof -
  let ?run = "run example_remote ''S1'' (JS_boolean True) (half_state fk)"
  let ?bs = "select_not_scanned ''S1'' (tables (db (half_state fk)) ''bases'')"
  let ?w = "write_record ''S1'' (Some ''appHalf'') \<lparr>t_id = ''tblOrders'', t_name = ''Orders''\<rparr>
         (db (half_state fk))
         \<lparr>rec_id = ''recOrders'', rec_fields = ''{}'',
            rec_createdTime = ''2021-02-01T10:00:00.000Z''\<rparr>"
  have kb: "keyed ''id'' (tables (db (half_state fk)) ''bases'')"
    and kd: "keyed ''record_id'' (tables (db (half_state fk)) ''data'')"
    by (simp_all add: keyed_def half_state_def base_row_def)
  obtain r1 s1 where pm: "promise_map (scanBase example_remote ''S1'') ?bs (half_state fk) = (r1, s1)"
    by (cases "promise_map (scanBase example_remote ''S1'') ?bs (half_state fk)")
  with half_state_scanned[of fk] have "r1 = Inr [None]" by simp
  then have ok: "fst ?run = Inr ()"
    unfolding run_cases[OF pm] by simp
  have run: "?run = (Inr (), snd ?run)"
    by (rule prod_eqI) (simp_all add: ok)
  note all = run_reconciles[OF run kb kd refl, unfolded half_state_scanned[THEN conjunct2]]
  note r = all[THEN conjunct2, THEN conjunct2]
  have wb: "tables ?w ''bases'' = [base_row ''appHalf'' (Some ''S0'')]"
    by (simp add: write_record_bases half_state_def)
  have wd: "tables ?w ''data'' =
      [(\<lambda>c. None)(''base_id'' := Some ''appHalf'', ''table_id'' := Some ''tblOrders'',
        ''record_id'' := Some ''recOrders'', ''created_time'' := Some ''{}'',
        ''data'' := Some ''2021-02-01T10:00:00.000Z'', ''scan_id'' := Some ''S1'')]"
    by (simp add: write_record_rows half_state_def)
  have wf: "foreign_keys ?w = fk"
    by (simp add: write_record_fk half_state_def)
  from r have "tables (db (snd ?run)) ''bases'' = []"
    unfolding wb by (simp add: base_row_def)
  moreover from r have "map (\<lambda>r. (r ''base_id'', r ''record_id'', r ''scan_id''))
     (tables (db (snd ?run)) ''data'')
     = (if fk then [] else [(Some ''appHalf'', Some ''recOrders'', Some ''S1'')])"
    unfolding wb wd wf by (simp add: base_row_def)
  ultimately show ?thesis using ok by simp
qed

text \<open>
  C3 (a defect of the code). The run is asked to delete. The second table of
  \<open>appHalf\<close> fails, so the base stays untagged and is in \<open>UNSCANNED_BASES\<close>, while the
  record of its first table is in \<open>data\<close>, tagged \<open>S1\<close>. Reconciliation deletes the
  base from \<open>bases\<close>; the record row carries the current tag, so the second
  deleteData keeps it, and with the foreign key not enforced (no statement of the
  scripts switches enforcement on) the declared \<open>ON DELETE CASCADE\<close> does not remove
  it either: a record row of a removed base is left in the store.
\<close>

theorem run_leaves_record_of_removed_base:
  "fst (run example_remote ''S1'' (JS_boolean True) (half_state False)) = Inr () \<and>
   tables (db (snd (run example_remote ''S1'' (JS_boolean True) (half_state False)))) ''bases'' = [] \<and>
   map (\<lambda>r. (r ''base_id'', r ''record_id'', r ''scan_id''))
     (tables (db (snd (run example_remote ''S1'' (JS_boolean True) (half_state False)))) ''data'')
     = [(Some ''appHalf'', Some ''recOrders'', Some ''S1'')]"
  using half_state_reconciled[of False] by simp

text \<open>With the foreign key enforced, the same run leaves no row of the removed base.\<close>

lemma run_cascades_when_enforced:
  "tables (db (snd (run example_remote ''S1'' (JS_boolean True) (half_state True)))) ''bases'' = [] \<and>
   tables (db (snd (run example_remote ''S1'' (JS_boolean True) (half_state True)))) ''data'' = []"
  using half_state_reconciled[of True] by simp

section \<open>The identity of record rows, and the crawl's write of a base\<close>

lemma write_base_rows:
  "tables (write_base d q r) ''bases'' =
     filter (\<lambda>x. \<not> (x ''id'' \<noteq> None \<and> x ''id'' = q_base_id q)) (tables d ''bases'') @
     [(\<lambda>c. None)(''id'' := q_base_id q, ''workspace_id'' := q_workspace_id q,
        ''created_time'' := detail_created_time r, ''name'' := detail_name r)]"
  by (simp add: write_base_def insert_or_replace_def Let_def primary_key_def cascade_def)

text \<open>
  C9 (as stated, refuted). The claim gives a record row the identity (base, table,
  record). The key of \<open>data\<close> is \<open>record_id\<close> alone, so writing a record with the
  identifier \<open>rec1\<close> for base \<open>appB\<close>, table \<open>tbl2\<close> replaces the row written for
  \<open>rec1\<close> of base \<open>appA\<close>, table \<open>tbl1\<close>: one row is stored, not two.
\<close>

theorem write_record_identity_counterexample:
  "map (\<lambda>r. (r ''base_id'', r ''table_id'', r ''record_id''))
     (tables
        (write_record ''S1'' (Some ''appB'') \<lparr>t_id = ''tbl2'', t_name = ''Clients''\<rparr>
           (write_record ''S1'' (Some ''appA'') \<lparr>t_id = ''tbl1'', t_name = ''Orders''\<rparr> no_rows
              \<lparr>rec_id = ''rec1'', rec_fields = ''{}'', rec_createdTime = ''2021-02-01''\<rparr>)
           \<lparr>rec_id = ''rec1'', rec_fields = ''{}'', rec_createdTime = ''2021-02-02''\<rparr>)
        ''data'')
   = [(Some ''appB'', Some ''tbl2'', Some ''rec1'')]"
  by (simp add: write_record_rows no_rows_def)

text \<open>
  C9 (amended). A record row is identified by its record identifier alone: writing a
  record replaces the row that holds the same record identifier, whatever its base and
  table identifiers, and leaves every other row in place; writing the same record
  again changes nothing.
\<close>

theorem write_record_replaces_by_record_id:
  "(\<exists>new. tables (write_record S i t d rec) ''data'' =
            filter (\<lambda>r. r ''record_id'' \<noteq> Some (rec_id rec)) (tables d ''data'') @ [new] \<and>
          new ''record_id'' = Some (rec_id rec) \<and> new ''base_id'' = i \<and>
          new ''table_id'' = Some (t_id t) \<and> new ''scan_id'' = Some S) \<and>
   tables (write_record S i t (write_record S i t d rec) rec) ''data'' =
     tables (write_record S i t d rec) ''data''"
  by (simp add: write_record_rows)

theorem write_record_replaces_by_record_id_witness:
  "\<exists>new. tables (write_record ''S1'' (Some ''appA'') \<lparr>t_id = ''tbl1'', t_name = ''Orders''\<rparr>
      (db (stale_state False))
      \<lparr>rec_id = ''recD'', rec_fields = ''{}'', rec_createdTime = ''2021-02-01''\<rparr>) ''data''
   = [data_row ''appDone'' ''recA'' (Some ''S1''),
      data_row ''appGone'' ''recB'' (Some ''S0''),
      data_row ''appLocked'' ''recC'' None, new] \<and>
     new ''record_id'' = Some ''recD'' \<and> new ''base_id'' = Some ''appA''"
  using write_record_replaces_by_record_id
    [of "''S1''" "Some ''appA''" "\<lparr>t_id = ''tbl1'', t_name = ''Orders''\<rparr>" "db (stale_state False)"
        "\<lparr>rec_id = ''recD'', rec_fields = ''{}'', rec_createdTime = ''2021-02-01''\<rparr>"]
  by (auto simp: stale_state_def data_row_def)

text \<open>
  C10. The crawl's write of a base names only the columns id, workspace_id,
  created_time and name. After it, the one row of \<open>bases\<close> with that identifier is the
  row just written, and its scan_id and scan_time are NULL, whatever the row it
  replaced held there.
\<close>

theorem write_base_resets_scan:
  assumes "q_base_id q = Some i"
  shows "\<exists>new. filter (\<lambda>x. x ''id'' = Some i) (tables (write_base d q r) ''bases'') = [new] \<and>
           new ''scan_id'' = None \<and> new ''scan_time'' = None \<and>
           new ''workspace_id'' = q_workspace_id q \<and> new ''name'' = detail_name r \<and>
           new ''created_time'' = detail_created_time r"
proof -
  have "filter (\<lambda>x. x ''id'' = Some i)
          (filter (\<lambda>x. \<not> (x ''id'' \<noteq> None \<and> x ''id'' = q_base_id q)) (tables d ''bases'')) = []"
    using assms by (auto simp: filter_empty_conv)
  then show ?thesis
    using assms by (simp add: write_base_rows)
qed

theorem write_base_resets_scan_witness:
  "filter (\<lambda>x. x ''id'' = Some ''appDone'') (tables (db example_state) ''bases'')
     = [base_row ''appDone'' (Some ''S1'')] \<and>
   (\<exists>new. filter (\<lambda>x. x ''id'' = Some ''appDone'')
            (tables (write_base (db example_state)
               \<lparr>q_workspace_id = Some ''wsp1'', q_base_id = Some ''appDone''\<rparr>
               \<lparr>detail_name = Some ''Sales'', detail_created_time = Some ''2020-01-01''\<rparr>) ''bases'')
          = [new] \<and> new ''scan_id'' = None \<and> new ''scan_time'' = None)"
proof -
  have "q_base_id \<lparr>q_workspace_id = Some ''wsp1'', q_base_id = Some ''appDone''\<rparr> = Some ''appDone''"
    by simp
  from write_base_resets_scan[OF this, of "db example_state"
      "\<lparr>detail_name = Some ''Sales'', detail_created_time = Some ''2020-01-01''\<rparr>"]
  have "\<exists>new. filter (\<lambda>x. x ''id'' = Some ''appDone'')
            (tables (write_base (db example_state)
               \<lparr>q_workspace_id = Some ''wsp1'', q_base_id = Some ''appDone''\<rparr>
               \<lparr>detail_name = Some ''Sales'', detail_created_time = Some ''2020-01-01''\<rparr>) ''bases'')
          = [new] \<and> new ''scan_id'' = None \<and> new ''scan_time'' = None"
    by blast
  moreover have "filter (\<lambda>x. x ''id'' = Some ''appDone'') (tables (db example_state) ''bases'')
     = [base_row ''appDone'' (Some ''S1'')]"
    by (simp add: example_state_def base_row_def)
  ultimately show ?thesis by simp
qed

section \<open>Record rows and the failure of a table\<close>

subsection \<open>Sequences of the scan's statements\<close>










text \<open>The scan of the model is one such sequence: what it does to the store, it does
  by these statements.\<close>

lemma foldl_write_record_execute:
  "foldl (write_record S i t) d recs = foldl (execute S) d (map (Insert_record i t) recs)"
  by (induction recs arbitrary: d) simp_all

lemma scanTable_executes:
  assumes "scanTable env S i t st = (r, st')"
  shows "\<exists>stmts. db st' = foldl (execute S) (db st) stmts"
proof (cases "select_all env i (t_name t)")
  case (Rejected err)
  with assms have "db st' = foldl (execute S) (db st) []"
    by (auto simp: scanTable_rejected logged_def)
  then show ?thesis by blast
next
  case (Resolved recs)
  with assms have "db st' = foldl (execute S) (db st) (map (Insert_record i t) recs)"
    by (auto simp: scanTable_resolved logged_def foldl_write_record_execute)
  then show ?thesis by blast
qed

lemma scanTables_execute:
  assumes "promise_map (scanTable env S i) ts st = (r, st')"
  shows "\<exists>stmts. db st' = foldl (execute S) (db st) stmts"
proof (rule promise_map_invariant
        [where f = "scanTable env S i" and s = st and xs = ts and r = r
           and P = "\<lambda>s. \<exists>stmts. db s = foldl (execute S) (db st) stmts"])
  have "db st = foldl (execute S) (db st) []" by simp
  then show "\<exists>stmts. db st = foldl (execute S) (db st) stmts" by blast
  show "promise_map (scanTable env S i) ts st = (r, st')" by (rule assms)
next
  fix t s r1 s1
  assume step: "scanTable env S i t s = (r1, s1)"
    and "\<exists>stmts. db s = foldl (execute S) (db st) stmts"
  then obtain xs where xs: "db s = foldl (execute S) (db st) xs" by blast
  from scanTable_executes[OF step] obtain ys where "db s1 = foldl (execute S) (db s) ys" by blast
  with xs have "db s1 = foldl (execute S) (db st) (xs @ ys)" by simp
  then show "\<exists>stmts. db s1 = foldl (execute S) (db st) stmts" by blast
qed

lemma scanBase_executes:
  assumes run: "scanBase env S b st = (res, st')"
  shows "\<exists>stmts. db st' = foldl (execute S) (db st) stmts"
proof -
  have nil: "db st' = db st \<Longrightarrow> ?thesis"
  proof -
    assume "db st' = db st"
    then have "db st' = foldl (execute S) (db st) []" by simp
    then show ?thesis by blast
  qed
  show ?thesis
  proof (cases "post_collaborators env (b ''id'')")
    case (Rejected err)
    from run have "db st' = db st"
      unfolding scanBase_post_rejected[where b = b, OF Rejected]
      by (drule_tac catch_post_collaborators_db) (simp add: logged_def)
    then show ?thesis by (rule nil)
  next
    case (Resolved u)
    show ?thesis
    proof (cases "get_tables env (b ''id'')")
      case (Rejected err)
      from run have "db st' = db st"
        unfolding scanBase_tables_rejected[where b = b, OF Resolved Rejected]
        by (drule_tac catch_get_tables_same) (simp add: logged_def)
      then show ?thesis by (rule nil)
    next
      case ts: (Resolved ts)
      obtain r3 st3 where pm:
        "promise_map (scanTable env S (b ''id'')) ts (granted st (b ''id'')) = (r3, st3)"
        by (cases "promise_map (scanTable env S (b ''id'')) ts (granted st (b ''id''))")
      from scanTables_execute[OF pm] obtain xs where
        xs: "db st3 = foldl (execute S) (db st) xs"
        by (auto simp: granted_frame)
      have "db st' = db st3 \<or>
            db st' = update_scan (db st3) (now_iso env (b ''id'')) S (b ''id'')"
      proof (cases r3)
        case (Inl err)
        with Resolved ts pm run have "st' = st3\<lparr>UNSCANNED_BASES := UNSCANNED_BASES st3 @ [b ''id'']\<rparr>"
          by (simp add: scanBase_tables_failed)
        then show ?thesis by simp
      next
        case (Inr ns)
        show ?thesis
          using run unfolding scanBase_tables_done[where b = b, OF Resolved ts pm[unfolded Inr]]
          by (cases "reduce_sum ns"; cases "delete_collaborator env (b ''id'')")
             (auto simp: Let_def logged_def split: option.splits if_splits)
      qed
      then have "db st' = foldl (execute S) (db st) xs \<or>
                 db st' = foldl (execute S) (db st)
                            (xs @ [Update_base (now_iso env (b ''id'')) (b ''id'')])"
        using xs by simp
      then show ?thesis by blast
    qed
  qed
qed

lemma scanBases_execute:
  assumes "promise_map (scanBase env S) bs st = (r, st')"
  shows "\<exists>stmts. db st' = foldl (execute S) (db st) stmts"
proof (rule promise_map_invariant
        [where f = "scanBase env S" and s = st and xs = bs and r = r
           and P = "\<lambda>s. \<exists>stmts. db s = foldl (execute S) (db st) stmts"])
  have "db st = foldl (execute S) (db st) []" by simp
  then show "\<exists>stmts. db st = foldl (execute S) (db st) stmts" by blast
  show "promise_map (scanBase env S) bs st = (r, st')" by (rule assms)
next
  fix b s r1 s1
  assume step: "scanBase env S b s = (r1, s1)"
    and "\<exists>stmts. db s = foldl (execute S) (db st) stmts"
  then obtain xs where xs: "db s = foldl (execute S) (db st) xs" by blast
  from scanBase_executes[OF step] obtain ys where "db s1 = foldl (execute S) (db s) ys" by blast
  with xs have "db s1 = foldl (execute S) (db st) (xs @ ys)" by simp
  then show "\<exists>stmts. db s1 = foldl (execute S) (db st) stmts" by blast
qed


subsection \<open>A written row that does not stay\<close>






subsection \<open>What stays\<close>



end
